theory Spec2Isabelle
  imports Complex_Main "HOL-Library.Word" "HOL-Library.Signed_Division"
begin

section \<open>Platform model\<close>

text \<open>
  The three sketches are Arduino programs. \<^verbatim>\<open>unsigned long\<close> is a 32-bit unsigned
  integer whose arithmetic wraps around; it is modelled as a 32-bit word. The values of
  type \<^verbatim>\<open>int\<close> and \<^verbatim>\<open>long\<close> that the sketches compute (ADC samples, table entries,
  frequencies) are modelled as integers; every place where they are converted to
  \<^verbatim>\<open>unsigned long\<close> or to a floating-point type is written out.
\<close>

type_synonym ulong = "32 word"

text \<open>
  Undefined behaviour of the C code is a value: an array read outside the array, a
  floating-point division whose divisor is zero, and a conversion of a floating-point
  value to an integer type that cannot hold it.
\<close>

datatype fault = OutOfBounds | DivisionByZero | CastOverflow

definition bindF :: "fault + 'a \<Rightarrow> ('a \<Rightarrow> fault + 'b) \<Rightarrow> fault + 'b" where
  "bindF m f = (case m of Inl e \<Rightarrow> Inl e | Inr x \<Rightarrow> f x)"

text \<open>Reading \<^verbatim>\<open>a[i]\<close>.\<close>

definition rd :: "int list \<Rightarrow> int \<Rightarrow> fault + int" where
  "rd a i = (if 0 \<le> i \<and> i < int (length a) then Inr (a ! nat i) else Inl OutOfBounds)"

subsection \<open>Floating point\<close>

text \<open>
  A floating-point value is modelled as the real number it denotes, and every
  floating-point operation as the exact operation followed by the rounding function
  \<open>rnd\<close> of the floating-point type, which the model takes as a parameter. What the
  proofs use of it is \<open>float_rounding\<close>: rounding is monotone, and a value
  \<open>m / 2 ^ k\<close> with a significand of at most 24 bits is representable, so rounding
  leaves it as it is. IEEE single and double precision with any of the directed or
  to-nearest rounding modes satisfy both.
\<close>

definition float_rounding :: "(real \<Rightarrow> real) \<Rightarrow> bool" where
  "float_rounding rnd \<longleftrightarrow>
     (\<forall>x y. x \<le> y \<longrightarrow> rnd x \<le> rnd y) \<and>
     (\<forall>(m::int) (k::nat). \<bar>m\<bar> \<le> 2 ^ 24 \<and> k \<le> 64 \<longrightarrow>
        rnd (real_of_int m / 2 ^ k) = real_of_int m / 2 ^ k)"

text \<open>
  The rounding function of IEEE single precision, the \<^verbatim>\<open>float\<close> of the Arduino boards:
  to the nearest value with a significand of 24 bits, a tie to the one with an even
  significand. \<open>rne\<close> rounds to the nearest integer, a tie to the even one; \<open>rnd32\<close>
  scales its argument by the unit in the last place of its binade, rounds and scales
  back. The exponent range is not modelled: the values the sketches compute are far
  from its ends.
\<close>

definition rne :: "real \<Rightarrow> int" where
  "rne r =
     (if r - real_of_int \<lfloor>r\<rfloor> < 1 / 2 \<or> (r - real_of_int \<lfloor>r\<rfloor> = 1 / 2 \<and> even \<lfloor>r\<rfloor>)
      then \<lfloor>r\<rfloor> else \<lfloor>r\<rfloor> + 1)"

definition rnd32 :: "real \<Rightarrow> real" where
  "rnd32 x =
     (if x = 0 then 0
      else let e = \<lfloor>log 2 \<bar>x\<bar>\<rfloor>;
               u = 2 powr (real_of_int e - 23)
           in sgn x * (u * real_of_int (rne (\<bar>x\<bar> / u))))"

text \<open>
  The conversion of a floating-point value to an integer type truncates towards zero,
  and is undefined when the integer type cannot hold the truncated value: \<open>to_long\<close> is
  the cast \<^verbatim>\<open>(long)r\<close>, \<open>to_ulong\<close> the conversion to \<^verbatim>\<open>unsigned long\<close>.
\<close>

definition trunc :: "real \<Rightarrow> int" where
  "trunc r = (if 0 \<le> r then \<lfloor>r\<rfloor> else \<lceil>r\<rceil>)"

definition to_long :: "real \<Rightarrow> fault + int" where
  "to_long r =
     (if - 2147483649 < r \<and> r < 2147483648 then Inr (trunc r) else Inl CastOverflow)"

definition to_ulong :: "real \<Rightarrow> fault + ulong" where
  "to_ulong r =
     (if - 1 < r \<and> r < 4294967296 then Inr (word_of_int (trunc r)) else Inl CastOverflow)"

subsection \<open>Pins\<close>

text \<open>
  The output pins are a log of the calls of \<^verbatim>\<open>digitalWrite\<close>, the most recent call
  first. The level of a pin is the level of the most recent write to it.
\<close>

datatype pin = PAS_PIN | BUZZ_PIN

record sketch =
  throttleValue :: int
  writes :: "(pin \<times> bool) list"

definition digitalWrite :: "pin \<Rightarrow> bool \<Rightarrow> 'a sketch_scheme \<Rightarrow> 'a sketch_scheme" where
  "digitalWrite p v s = s\<lparr>writes := (p, v) # writes s\<rparr>"

definition pinLevel :: "pin \<Rightarrow> 'a sketch_scheme \<Rightarrow> bool option" where
  "pinLevel p s = map_of (writes s) p"

section \<open>Lookup-table interpolation\<close>

text \<open>
  \<^verbatim>\<open>interpolate\<close> is the same function in \<^verbatim>\<open>v3_emulator_buzz.ino\<close> and in
  \<^verbatim>\<open>emulator_LUTthrottle.ino\<close>. \<open>lerp\<close> is the block inside the loop's \<^verbatim>\<open>if\<close>:
  the four table entries are converted to \<^verbatim>\<open>float\<close>, and so is \<^verbatim>\<open>inputValue\<close>
  in \<^verbatim>\<open>inputValue - x0\<close>.
\<close>

definition lerp :: "(real \<Rightarrow> real) \<Rightarrow> int \<Rightarrow> int \<Rightarrow> int \<Rightarrow> int \<Rightarrow> int \<Rightarrow> fault + int" where
  "lerp rnd inputValue xi yi xj yj =
     (let x0 = rnd (real_of_int xi);
          y0 = rnd (real_of_int yi);
          x1 = rnd (real_of_int xj);
          y1 = rnd (real_of_int yj);
          num = rnd (rnd (rnd (real_of_int inputValue) - x0) * rnd (y1 - y0));
          den = rnd (x1 - x0)
      in if den = 0 then Inl DivisionByZero
         else to_long (rnd (y0 + rnd (num / den))))"

function scan :: "(real \<Rightarrow> real) \<Rightarrow> int \<Rightarrow> int list \<Rightarrow> int list \<Rightarrow> int \<Rightarrow> int \<Rightarrow> fault + int" where
  "scan rnd inputValue inputTable outputTable tableLen i =
     (if i < tableLen - 1 then
        (case rd inputTable i of
           Inl e \<Rightarrow> Inl e
         | Inr xi \<Rightarrow>
             if inputValue \<ge> xi then
               (case rd inputTable (i + 1) of
                  Inl e \<Rightarrow> Inl e
                | Inr xj \<Rightarrow>
                    if inputValue \<le> xj then
                      (case rd outputTable i of
                         Inl e \<Rightarrow> Inl e
                       | Inr yi \<Rightarrow>
                           (case rd outputTable (i + 1) of
                              Inl e \<Rightarrow> Inl e
                            | Inr yj \<Rightarrow> lerp rnd inputValue xi yi xj yj))
                    else scan rnd inputValue inputTable outputTable tableLen (i + 1))
             else scan rnd inputValue inputTable outputTable tableLen (i + 1))
      else rd outputTable 0)"
  by pat_completeness auto
termination
  by (relation "measure (\<lambda>(rnd, inputValue, inputTable, outputTable, tableLen, i).
        nat (tableLen - 1 - i))") auto

definition interpolate :: "(real \<Rightarrow> real) \<Rightarrow> int \<Rightarrow> int list \<Rightarrow> int list \<Rightarrow> int \<Rightarrow> fault + int" where
  "interpolate rnd inputValue inputTable outputTable tableLen =
     (case rd inputTable 0 of
        Inl e \<Rightarrow> Inl e
      | Inr lo \<Rightarrow>
          if inputValue \<le> lo then rd outputTable 0
          else
            (case rd inputTable (tableLen - 1) of
               Inl e \<Rightarrow> Inl e
             | Inr hi \<Rightarrow>
                 if inputValue \<ge> hi then rd outputTable (tableLen - 1)
                 else scan rnd inputValue inputTable outputTable tableLen 0))"

section \<open>The sketch with the debug buzzer: \<^verbatim>\<open>v3_emulator_buzz.ino\<close>\<close>

definition DUTY_CYCLE :: int where
  "DUTY_CYCLE = 25"

definition AUDIO_MULTIPLIER :: int where
  "AUDIO_MULTIPLIER = 50"

definition DEBUG_MODE :: bool where
  "DEBUG_MODE = True"

definition SERIAL_INTERVAL :: ulong where
  "SERIAL_INTERVAL = 250000"

definition throttlePoints :: "int list" where
  "throttlePoints = [220, 350, 500, 700, 820]"

definition frequencyPoints :: "int list" where
  "frequencyPoints = [0, 8, 14, 22, 25]"

definition tableSize :: int where
  "tableSize = int (length throttlePoints)"

record PASState =
  outputHigh :: bool
  lastToggleMicros :: ulong
  highDurationMicros :: ulong
  lowDurationMicros :: ulong
  currentFrequency :: int

text \<open>
  The fields \<^verbatim>\<open>outputHigh\<close> and \<^verbatim>\<open>lastToggleMicros\<close> of \<^verbatim>\<open>struct BuzzState\<close>
  are \<open>buzzHigh\<close> and \<open>buzzLastToggleMicros\<close> here, since the field names of two
  records cannot coincide.
\<close>

record BuzzState =
  buzzHigh :: bool
  buzzLastToggleMicros :: ulong
  periodMicros :: ulong

record v3_state = sketch +
  pas :: PASState
  buzz :: BuzzState
  lastSerialOutput :: ulong

text \<open>
  \<^verbatim>\<open>1000000UL / frequency\<close> converts \<^verbatim>\<open>frequency\<close> to \<^verbatim>\<open>unsigned long\<close> and
  divides there; so does \<^verbatim>\<open>totalPeriodMicros * DUTY_CYCLE / 100\<close>.
\<close>

definition updatePASTimings :: "int \<Rightarrow> v3_state \<Rightarrow> v3_state" where
  "updatePASTimings frequency s =
     (let s1 =
        (if frequency > 0 then
           (let totalPeriodMicros = (1000000 :: ulong) div word_of_int frequency;
                high = totalPeriodMicros * word_of_int DUTY_CYCLE div 100
            in s\<lparr>pas := (pas s)\<lparr>highDurationMicros := high,
                                  lowDurationMicros := totalPeriodMicros - high\<rparr>\<rparr>)
         else s)
      in s1\<lparr>pas := (pas s1)\<lparr>currentFrequency := frequency\<rparr>\<rparr>)"

text \<open>
  \<^verbatim>\<open>baseFrequency * AUDIO_MULTIPLIER\<close> is a product of \<^verbatim>\<open>long\<close> values; for the
  frequencies of the table, at most 25, it is at most 1250.
\<close>

definition updateBuzzTimings :: "int \<Rightarrow> v3_state \<Rightarrow> v3_state" where
  "updateBuzzTimings baseFrequency s =
     (if baseFrequency > 0 then
        (let audioFrequency = baseFrequency * AUDIO_MULTIPLIER
         in s\<lparr>buzz := (buzz s)\<lparr>periodMicros :=
                 (1000000 :: ulong) div word_of_int audioFrequency div 2\<rparr>\<rparr>)
      else s\<lparr>buzz := (buzz s)\<lparr>periodMicros := 0\<rparr>\<rparr>)"

definition updatePASSignal :: "ulong \<Rightarrow> v3_state \<Rightarrow> v3_state" where
  "updatePASSignal currentMicros s =
     (if currentFrequency (pas s) \<le> 0 then
        (digitalWrite PAS_PIN False s)\<lparr>pas := (pas s)\<lparr>outputHigh := False\<rparr>\<rparr>
      else if outputHigh (pas s) then
        (if currentMicros - lastToggleMicros (pas s) \<ge> highDurationMicros (pas s) then
           (digitalWrite PAS_PIN False s)
             \<lparr>pas := (pas s)\<lparr>outputHigh := False, lastToggleMicros := currentMicros\<rparr>\<rparr>
         else s)
      else
        (if currentMicros - lastToggleMicros (pas s) \<ge> lowDurationMicros (pas s) then
           (digitalWrite PAS_PIN True s)
             \<lparr>pas := (pas s)\<lparr>outputHigh := True, lastToggleMicros := currentMicros\<rparr>\<rparr>
         else s))"

definition updateBuzzSignal :: "ulong \<Rightarrow> v3_state \<Rightarrow> v3_state" where
  "updateBuzzSignal currentMicros s =
     (if \<not> DEBUG_MODE \<or> periodMicros (buzz s) = 0 then
        (digitalWrite BUZZ_PIN False s)\<lparr>buzz := (buzz s)\<lparr>buzzHigh := False\<rparr>\<rparr>
      else if currentMicros - buzzLastToggleMicros (buzz s) \<ge> periodMicros (buzz s) then
        (digitalWrite BUZZ_PIN (\<not> buzzHigh (buzz s)) s)
          \<lparr>buzz := (buzz s)\<lparr>buzzHigh := \<not> buzzHigh (buzz s),
                              buzzLastToggleMicros := currentMicros\<rparr>\<rparr>
      else s)"

text \<open>The text written to the serial port is not part of the model.\<close>

definition updateSerialOutput :: "ulong \<Rightarrow> v3_state \<Rightarrow> v3_state" where
  "updateSerialOutput currentMicros s =
     (if currentMicros - lastSerialOutput s \<ge> SERIAL_INTERVAL
      then s\<lparr>lastSerialOutput := currentMicros\<rparr> else s)"

text \<open>\<open>adc\<close> is the value that \<^verbatim>\<open>analogRead(THROTTLE_PIN)\<close> returns.\<close>

definition processThrottleInput :: "(real \<Rightarrow> real) \<Rightarrow> int \<Rightarrow> v3_state \<Rightarrow> fault + v3_state" where
  "processThrottleInput rnd adc s =
     (let s1 = s\<lparr>throttleValue := adc\<rparr>
      in if throttleValue s1 > throttlePoints ! 0 then
           bindF (interpolate rnd (throttleValue s1) throttlePoints frequencyPoints tableSize)
             (\<lambda>frequency. Inr (updateBuzzTimings frequency (updatePASTimings frequency s1)))
         else Inr (updateBuzzTimings 0 (updatePASTimings 0 s1)))"

definition setup_v3 :: v3_state where
  "setup_v3 =
     \<lparr>throttleValue = 0, writes = [(BUZZ_PIN, False), (PAS_PIN, False)],
      pas = \<lparr>outputHigh = False, lastToggleMicros = 0, highDurationMicros = 0,
             lowDurationMicros = 0, currentFrequency = 0\<rparr>,
      buzz = \<lparr>buzzHigh = False, buzzLastToggleMicros = 0, periodMicros = 0\<rparr>,
      lastSerialOutput = 0\<rparr>"

text \<open>One pass of \<^verbatim>\<open>loop\<close>; \<open>currentMicros\<close> is the value that \<^verbatim>\<open>micros()\<close> returns.\<close>

definition loop_v3 :: "(real \<Rightarrow> real) \<Rightarrow> ulong \<Rightarrow> int \<Rightarrow> v3_state \<Rightarrow> fault + v3_state" where
  "loop_v3 rnd currentMicros adc s =
     bindF (processThrottleInput rnd adc s)
       (\<lambda>s1. let s2 = updateBuzzSignal currentMicros (updatePASSignal currentMicros s1)
             in Inr (if DEBUG_MODE then updateSerialOutput currentMicros s2 else s2))"

text \<open>
  The Arduino core calls \<^verbatim>\<open>loop\<close> again and again: the passes of a \<^verbatim>\<open>loop\<close>
  on a sequence of clock values and samples.
\<close>

fun run :: "(ulong \<Rightarrow> int \<Rightarrow> 's \<Rightarrow> fault + 's) \<Rightarrow> (ulong \<times> int) list \<Rightarrow> 's \<Rightarrow> fault + 's" where
  "run loop [] s = Inr s"
| "run loop ((currentMicros, adc) # rest) s = bindF (loop currentMicros adc s) (run loop rest)"

section \<open>The sketches without the buzzer\<close>

text \<open>
  \<^verbatim>\<open>emulator_LUTthrottle.ino\<close> and the sketch with the fixed calibration have the
  same global variables and the same state machine, written inside \<^verbatim>\<open>loop\<close>.
\<close>

record basic_state = sketch +
  pasState :: bool
  previousMicros :: ulong

definition setup_basic :: basic_state where
  "setup_basic =
     \<lparr>throttleValue = 0, writes = [(PAS_PIN, False)], pasState = False, previousMicros = 0\<rparr>"

text \<open>
  \<^verbatim>\<open>totalPeriodMicros * (DUTY_CYCLE / 100.0)\<close>, converted to \<^verbatim>\<open>unsigned long\<close>.
  The literal \<^verbatim>\<open>100.0\<close> is the floating-point value 100.
\<close>

definition highTime :: "(real \<Rightarrow> real) \<Rightarrow> ulong \<Rightarrow> fault + ulong" where
  "highTime rnd totalPeriodMicros =
     to_ulong (rnd (rnd (real (unat totalPeriodMicros)) * rnd (rnd (real_of_int DUTY_CYCLE) / 100)))"

text \<open>The statements under \<^verbatim>\<open>State Machine Logic\<close>.\<close>

definition stateMachine :: "ulong \<Rightarrow> ulong \<Rightarrow> ulong \<Rightarrow> basic_state \<Rightarrow> basic_state" where
  "stateMachine currentMicros highTimeMicros lowTimeMicros s =
     (if pasState s \<and> currentMicros - previousMicros s \<ge> highTimeMicros then
        digitalWrite PAS_PIN False (s\<lparr>pasState := False, previousMicros := currentMicros\<rparr>)
      else if \<not> pasState s \<and> currentMicros - previousMicros s \<ge> lowTimeMicros then
        digitalWrite PAS_PIN True (s\<lparr>pasState := True, previousMicros := currentMicros\<rparr>)
      else s)"

text \<open>
  \<^verbatim>\<open>1000000 / frequency\<close> is a division of \<^verbatim>\<open>long\<close> values, which truncates
  towards zero; its result is converted to \<^verbatim>\<open>unsigned long\<close>.
\<close>

definition totalPeriod :: "int \<Rightarrow> ulong" where
  "totalPeriod frequency = word_of_int (1000000 sdiv frequency)"

text \<open>The statements of \<^verbatim>\<open>loop\<close> from there to the end of the state machine.\<close>

definition pulse :: "(real \<Rightarrow> real) \<Rightarrow> ulong \<Rightarrow> int \<Rightarrow> basic_state \<Rightarrow> fault + basic_state" where
  "pulse rnd currentMicros frequency s =
     (let totalPeriodMicros = totalPeriod frequency
      in bindF (highTime rnd totalPeriodMicros)
           (\<lambda>highTimeMicros.
              let lowTimeMicros = totalPeriodMicros - highTimeMicros
              in Inr (stateMachine currentMicros highTimeMicros lowTimeMicros s)))"

subsection \<open>\<^verbatim>\<open>emulator_LUTthrottle.ino\<close>\<close>

definition loop_lut :: "(real \<Rightarrow> real) \<Rightarrow> ulong \<Rightarrow> int \<Rightarrow> basic_state \<Rightarrow> fault + basic_state" where
  "loop_lut rnd currentMicros adc s =
     (let s1 = s\<lparr>throttleValue := adc\<rparr>
      in if throttleValue s1 > throttlePoints ! 0 then
           bindF (interpolate rnd (throttleValue s1) throttlePoints frequencyPoints tableSize)
             (\<lambda>frequency.
                if frequency > 0 then pulse rnd currentMicros frequency s1
                else Inr ((digitalWrite PAS_PIN False s1)\<lparr>pasState := False\<rparr>))
         else Inr ((digitalWrite PAS_PIN False s1)\<lparr>pasState := False\<rparr>))"

subsection \<open>The sketch with the fixed calibration\<close>

definition THROTTLE_MIN :: int where
  "THROTTLE_MIN = 220"

definition THROTTLE_MAX :: int where
  "THROTTLE_MAX = 820"

definition MIN_FREQUENCY :: int where
  "MIN_FREQUENCY = 5"

definition MAX_FREQUENCY :: int where
  "MAX_FREQUENCY = 25"

text \<open>
  The largest value that \<^verbatim>\<open>analogRead\<close> returns; the sketches' comments give the range
  of the ADC values as 0 to 1023.
\<close>

definition ADC_MAX :: int where
  "ADC_MAX = 1023"

text \<open>
  \<^verbatim>\<open>map\<close> and \<^verbatim>\<open>constrain\<close> of the Arduino core:
  \<^verbatim>\<open>(x - in_min) * (out_max - out_min) / (in_max - in_min) + out_min\<close> on \<^verbatim>\<open>long\<close>
  values, and \<^verbatim>\<open>((amt)<(low)?(low):((amt)>(high)?(high):(amt)))\<close>. The division of
  \<^verbatim>\<open>long\<close> values truncates towards zero. For the samples of the ADC the product
  stays far inside the range of \<^verbatim>\<open>long\<close> (\<open>map_long_fits\<close> below).
\<close>

definition map_long :: "int \<Rightarrow> int \<Rightarrow> int \<Rightarrow> int \<Rightarrow> int \<Rightarrow> int" where
  "map_long x in_min in_max out_min out_max =
     (x - in_min) * (out_max - out_min) sdiv (in_max - in_min) + out_min"

definition constrain :: "int \<Rightarrow> int \<Rightarrow> int \<Rightarrow> int" where
  "constrain amt low high = (if amt < low then low else if amt > high then high else amt)"

text \<open>The value of the variable \<^verbatim>\<open>frequency\<close> in \<^verbatim>\<open>loop\<close>.\<close>

definition frequency_fixed :: "int \<Rightarrow> int" where
  "frequency_fixed adc =
     constrain (map_long adc THROTTLE_MIN THROTTLE_MAX MIN_FREQUENCY MAX_FREQUENCY)
       MIN_FREQUENCY MAX_FREQUENCY"

definition loop_fixed :: "(real \<Rightarrow> real) \<Rightarrow> ulong \<Rightarrow> int \<Rightarrow> basic_state \<Rightarrow> fault + basic_state" where
  "loop_fixed rnd currentMicros adc s =
     (let s1 = s\<lparr>throttleValue := adc\<rparr>
      in if throttleValue s1 > THROTTLE_MIN then
           pulse rnd currentMicros (frequency_fixed (throttleValue s1)) s1
         else Inr ((digitalWrite PAS_PIN False s1)\<lparr>pasState := False\<rparr>))"

section \<open>The signal toggler as the specification describes it\<close>








definition exact :: "real \<Rightarrow> real" where
  "exact x = x"

section \<open>Tables\<close>

text \<open>
  The tables of the specification: \<^verbatim>\<open>tableLen\<close> is the number of elements of both
  arrays, which is not zero (\<open>table_shape\<close>), and inputs and outputs are in
  non-decreasing order (\<open>curve_table\<close>).
\<close>

definition table_shape :: "int list \<Rightarrow> int list \<Rightarrow> int \<Rightarrow> bool" where
  "table_shape inputTable outputTable tableLen \<longleftrightarrow>
     tableLen = int (length inputTable) \<and> length outputTable = length inputTable \<and>
     inputTable \<noteq> []"

definition curve_table :: "int list \<Rightarrow> int list \<Rightarrow> int \<Rightarrow> bool" where
  "curve_table inputTable outputTable tableLen \<longleftrightarrow>
     table_shape inputTable outputTable tableLen \<and> sorted inputTable \<and> sorted outputTable"

text \<open>
  The conditions under which the floating-point operations of \<^verbatim>\<open>interpolate\<close> before
  the division are exact: the entries have a magnitude of at most \<open>B\<close>
  (\<open>entries_within B\<close>, used with \<open>2 ^ 23 = 8388608\<close> and \<open>2 ^ 24 = 16777216\<close>), and in
  every segment the product of the difference of the inputs and the difference of the
  outputs has a magnitude of at most \<open>2 ^ 24\<close> (\<open>products_fit\<close>).
\<close>

definition entries_within :: "int \<Rightarrow> int list \<Rightarrow> bool" where
  "entries_within B a \<longleftrightarrow> (\<forall>x \<in> set a. \<bar>x\<bar> \<le> B)"

fun products_fit :: "int list \<Rightarrow> int list \<Rightarrow> bool" where
  "products_fit (x # x' # xs) (y # y' # ys) \<longleftrightarrow>
     \<bar>(x' - x) * (y' - y)\<bar> \<le> 16777216 \<and> products_fit (x' # xs) (y' # ys)"
| "products_fit xs ys \<longleftrightarrow> True"

section \<open>States used as examples\<close>


text \<open>
  States of the sketch with the buzzer: after \<^verbatim>\<open>setup\<close> and a pass at 1000000
  microseconds with the sample 820; after a further pass at 5000000 with the sample 100;
  and after a third pass at 5000010 with the sample 820.
\<close>

definition active_v3 :: v3_state where
  "active_v3 =
     \<lparr>throttleValue = 820,
      writes = [(BUZZ_PIN, True), (PAS_PIN, True), (BUZZ_PIN, False), (PAS_PIN, False)],
      pas = \<lparr>outputHigh = True, lastToggleMicros = 1000000, highDurationMicros = 10000,
             lowDurationMicros = 30000, currentFrequency = 25\<rparr>,
      buzz = \<lparr>buzzHigh = True, buzzLastToggleMicros = 1000000, periodMicros = 400\<rparr>,
      lastSerialOutput = 1000000\<rparr>"

definition idle_v3 :: v3_state where
  "idle_v3 =
     \<lparr>throttleValue = 100,
      writes = [(BUZZ_PIN, False), (PAS_PIN, False), (BUZZ_PIN, True), (PAS_PIN, True),
                (BUZZ_PIN, False), (PAS_PIN, False)],
      pas = \<lparr>outputHigh = False, lastToggleMicros = 1000000, highDurationMicros = 10000,
             lowDurationMicros = 30000, currentFrequency = 0\<rparr>,
      buzz = \<lparr>buzzHigh = False, buzzLastToggleMicros = 1000000, periodMicros = 0\<rparr>,
      lastSerialOutput = 5000000\<rparr>"

definition resumed_v3 :: v3_state where
  "resumed_v3 =
     \<lparr>throttleValue = 820,
      writes = [(BUZZ_PIN, True), (PAS_PIN, True), (BUZZ_PIN, False), (PAS_PIN, False),
                (BUZZ_PIN, True), (PAS_PIN, True), (BUZZ_PIN, False), (PAS_PIN, False)],
      pas = \<lparr>outputHigh = True, lastToggleMicros = 5000010, highDurationMicros = 10000,
             lowDurationMicros = 30000, currentFrequency = 25\<rparr>,
      buzz = \<lparr>buzzHigh = True, buzzLastToggleMicros = 5000010, periodMicros = 400\<rparr>,
      lastSerialOutput = 5000000\<rparr>"

text \<open>
  The state of the two other sketches after \<^verbatim>\<open>setup\<close> and a pass at 1000000
  microseconds with the sample 820.
\<close>

definition active_basic :: basic_state where
  "active_basic =
     \<lparr>throttleValue = 820, writes = [(PAS_PIN, True), (PAS_PIN, False)],
      pasState = True, previousMicros = 1000000\<rparr>"

section \<open>Properties\<close>

subsection \<open>Faults and rounding\<close>

lemma bindF_Inr [simp]: "bindF (Inr x) f = f x"
  by (simp add: bindF_def)

lemma bindF_Inl [simp]: "bindF (Inl e) f = Inl e"
  by (simp add: bindF_def)

lemma float_rounding_exact: "float_rounding exact"
  by (simp add: float_rounding_def exact_def)

lemma rnd_mono: "float_rounding rnd \<Longrightarrow> x \<le> y \<Longrightarrow> rnd x \<le> rnd y"
  by (simp add: float_rounding_def)

lemma rnd_int:
  assumes "float_rounding rnd" and "\<bar>m\<bar> \<le> 2 ^ 24"
  shows "rnd (real_of_int m) = real_of_int m"
proof -
  have "rnd (real_of_int m / 2 ^ 0) = real_of_int m / 2 ^ 0"
    using assms unfolding float_rounding_def by blast
  then show ?thesis by simp
qed

lemma rnd_quarter:
  assumes "float_rounding rnd" and "\<bar>m\<bar> \<le> 2 ^ 24"
  shows "rnd (real_of_int m / 4) = real_of_int m / 4"
proof -
  have "rnd (real_of_int m / 2 ^ 2) = real_of_int m / 2 ^ 2"
  proof -
    have "(2::nat) \<le> 64" by simp
    with assms show ?thesis unfolding float_rounding_def by blast
  qed
  then show ?thesis by simp
qed

subsection \<open>Hold durations\<close>

lemma unat_word_of_int_long:
  assumes "0 \<le> f" "f < 2 ^ 32"
  shows "unat (word_of_int f :: ulong) = nat f"
proof -
  have "(word_of_int f :: ulong) = of_nat (nat f)" using assms by simp
  moreover have "nat f < 2 ^ 32" using assms by (simp add: nat_less_iff)
  ultimately show ?thesis by (simp add: unat_of_nat)
qed




lemma highTime_exact:
  assumes fr: "float_rounding rnd" and t: "unat t \<le> 1000000"
  shows "highTime rnd t = Inr (t * word_of_int DUTY_CYCLE div 100)"
proof -
  define n where "n = int (unat t)"
  have n: "0 \<le> n" "n \<le> 1000000" using t unfolding n_def by linarith+
  have "rnd (real_of_int 25) = real_of_int 25"
    using fr by (rule rnd_int) simp
  then have "rnd (real_of_int DUTY_CYCLE) / 100 = real_of_int 1 / 4"
    by (simp add: DUTY_CYCLE_def)
  moreover have "rnd (real_of_int 1 / 4) = real_of_int 1 / 4"
    using fr by (rule rnd_quarter) simp
  ultimately have duty: "rnd (rnd (real_of_int DUTY_CYCLE) / 100) = 1 / 4"
    by simp
  have "rnd (real_of_int n) = real_of_int n"
    using fr by (rule rnd_int) (use n in simp)
  then have rn: "rnd (real (unat t)) = real_of_int n"
    unfolding n_def by (simp only: of_int_of_nat_eq)
  have "rnd (real_of_int n / 4) = real_of_int n / 4"
    using fr by (rule rnd_quarter) (use n in simp)
  then have prod: "rnd (rnd (real (unat t)) * rnd (rnd (real_of_int DUTY_CYCLE) / 100))
      = real_of_int n / 4"
    by (simp only: rn duty) simp
  have fl: "\<lfloor>real_of_int n / 4\<rfloor> = n div 4"
    using floor_divide_of_int_eq [of n 4, where ?'a = real] by simp
  have "highTime rnd t = to_ulong (real_of_int n / 4)"
    by (simp only: highTime_def prod)
  also have "\<dots> = Inr (word_of_int (n div 4))"
    using n by (simp add: to_ulong_def trunc_def fl)
  also have "(word_of_int (n div 4) :: ulong) = t * word_of_int DUTY_CYCLE div 100"
  proof -
    have "unat (t * 25) = unat t * 25"
      using t by (simp add: unat_word_ariths)
    then have "unat (t * 25 div 100) = unat t div 4"
      by (simp add: unat_div)
    then have "t * 25 div 100 = of_nat (unat t div 4)"
      using t by (simp add: word_unat_eq_iff unat_of_nat)
    also have "\<dots> = word_of_int (int (unat t div 4))"
      by (simp only: of_int_of_nat_eq)
    also have "int (unat t div 4) = n div 4"
      unfolding n_def by (simp add: zdiv_int)
    finally show ?thesis by (simp add: DUTY_CYCLE_def)
  qed
  finally show ?thesis .
qed

lemma unat_totalPeriod_basic:
  assumes "0 < f" "f < 2 ^ 31"
  shows "unat (totalPeriod f) = 1000000 div nat f"
proof -
  have "(1000000::int) sdiv f = 1000000 div f"
    using assms by (simp add: signed_divide_int_def sgn_if)
  moreover have "0 \<le> (1000000::int) div f" using assms by (simp add: pos_imp_zdiv_nonneg_iff)
  moreover have "(1000000::int) div f \<le> 1000000"
    by (rule int_div_le_self) simp
  ultimately have "unat (totalPeriod f) = nat (1000000 div f)"
    unfolding totalPeriod_def by (simp add: unat_word_of_int_long)
  also have "\<dots> = 1000000 div nat f"
    using assms by (simp add: nat_div_distrib)
  finally show ?thesis .
qed



subsection \<open>The toggler\<close>











subsection \<open>The scan of the table\<close>

lemma rd_Inr: "0 \<le> i \<Longrightarrow> i < int (length a) \<Longrightarrow> rd a i = Inr (a ! nat i)"
  by (simp add: rd_def)

lemma rd_Inl: "\<not> i < int (length a) \<Longrightarrow> rd a i = Inl OutOfBounds"
  by (simp add: rd_def)


declare scan.simps [simp del]

lemma scan_cases:
  assumes "0 \<le> i" and "i < int (length it) \<longrightarrow> it ! nat i < iv"
  shows "(scan rnd iv it ot n i = Inl OutOfBounds
            \<and> \<not> (n \<le> int (length it) \<and> n \<le> int (length ot)))
       \<or> (scan rnd iv it ot n i = rd ot 0
            \<and> (i \<le> n - 1 \<and> n \<le> int (length it) \<longrightarrow> it ! nat (n - 1) < iv))
       \<or> (\<exists>j. i \<le> j \<and> j < n - 1 \<and> j + 1 < int (length it) \<and> j + 1 < int (length ot)
              \<and> it ! nat j < iv \<and> iv \<le> it ! nat (j + 1)
              \<and> (\<forall>k. i \<le> k \<and> k < j \<longrightarrow> it ! nat (k + 1) < iv)
              \<and> scan rnd iv it ot n i
                  = lerp rnd iv (it ! nat j) (ot ! nat j) (it ! nat (j + 1)) (ot ! nat (j + 1)))"
  (is "?P i")
  using assms
proof (induction "nat (n - 1 - i)" arbitrary: i rule: less_induct)
  case less
  note i0 = \<open>0 \<le> i\<close> and lt = \<open>i < int (length it) \<longrightarrow> it ! nat i < iv\<close>
  show ?case
  proof (cases "i < n - 1")
    case False
    then have "scan rnd iv it ot n i = rd ot 0"
      by (subst scan.simps) simp
    moreover have "it ! nat (n - 1) < iv" if "i \<le> n - 1" "n \<le> int (length it)"
    proof -
      have "i = n - 1" using False that by simp
      then show ?thesis using lt that by simp
    qed
    ultimately show ?thesis by blast
  next
    case step: True
    show ?thesis
    proof (cases "i + 1 < int (length it)")
      case False
      then have nlen: "\<not> n \<le> int (length it)" using step by simp
      have "scan rnd iv it ot n i = Inl OutOfBounds"
      proof (cases "i < int (length it)")
        case True
        then have "rd it i = Inr (it ! nat i)" "it ! nat i \<le> iv"
          using i0 lt by (simp_all add: rd_Inr)
        moreover have "rd it (i + 1) = Inl OutOfBounds" using False by (rule rd_Inl)
        ultimately show ?thesis using step by (subst scan.simps) simp
      next
        case False
        then have "rd it i = Inl OutOfBounds" by (rule rd_Inl)
        then show ?thesis using step by (subst scan.simps) simp
      qed
      then show ?thesis using nlen by blast
    next
      case inr: True
      then have r0: "rd it i = Inr (it ! nat i)" and r1: "rd it (i + 1) = Inr (it ! nat (i + 1))"
        using i0 by (simp_all add: rd_Inr)
      have ge: "it ! nat i \<le> iv" "it ! nat i < iv" using lt inr by simp_all
      show ?thesis
      proof (cases "iv \<le> it ! nat (i + 1)")
        case hit: True
        show ?thesis
        proof (cases "i + 1 < int (length ot)")
          case True
          then have "rd ot i = Inr (ot ! nat i)" "rd ot (i + 1) = Inr (ot ! nat (i + 1))"
            using i0 by (simp_all add: rd_Inr)
          then have "scan rnd iv it ot n i
              = lerp rnd iv (it ! nat i) (ot ! nat i) (it ! nat (i + 1)) (ot ! nat (i + 1))"
            using step r0 r1 ge hit by (subst scan.simps) simp
          then have "i \<le> i \<and> i < n - 1 \<and> i + 1 < int (length it) \<and> i + 1 < int (length ot)
              \<and> it ! nat i < iv \<and> iv \<le> it ! nat (i + 1)
              \<and> (\<forall>k. i \<le> k \<and> k < i \<longrightarrow> it ! nat (k + 1) < iv)
              \<and> scan rnd iv it ot n i
                  = lerp rnd iv (it ! nat i) (ot ! nat i) (it ! nat (i + 1)) (ot ! nat (i + 1))"
            using step inr True ge hit by simp
          then show ?thesis by blast
        next
          case False
          then have nlen: "\<not> n \<le> int (length ot)" using step by simp
          have "rd ot i = Inl OutOfBounds \<or> (rd ot i = Inr (ot ! nat i) \<and> rd ot (i + 1) = Inl OutOfBounds)"
            using False i0 by (simp add: rd_def)
          then have "scan rnd iv it ot n i = Inl OutOfBounds"
            using step r0 r1 ge hit by (subst scan.simps) auto
          then show ?thesis using nlen by blast
        qed
      next
        case miss: False
        then have rec: "scan rnd iv it ot n i = scan rnd iv it ot n (i + 1)"
          using step r0 r1 ge by (subst scan.simps) simp
        have "nat (n - 1 - (i + 1)) < nat (n - 1 - i)" using step by simp
        moreover have "0 \<le> i + 1" using i0 by simp
        moreover have "i + 1 < int (length it) \<longrightarrow> it ! nat (i + 1) < iv" using miss by simp
        ultimately have IH: "?P (i + 1)" by (rule less.hyps)
        have all: "(\<forall>k. i \<le> k \<and> k < j \<longrightarrow> it ! nat (k + 1) < iv)"
          if "\<forall>k. i + 1 \<le> k \<and> k < j \<longrightarrow> it ! nat (k + 1) < iv" for j
        proof (intro allI impI)
          fix k assume k: "i \<le> k \<and> k < j"
          show "it ! nat (k + 1) < iv"
          proof (cases "k = i")
            case True then show ?thesis using miss by simp
          next
            case False then show ?thesis using k that by simp
          qed
        qed
        from IH show ?thesis
        proof (elim disjE conjE exE)
          assume "scan rnd iv it ot n (i + 1) = Inl OutOfBounds"
            "\<not> (n \<le> int (length it) \<and> n \<le> int (length ot))"
          then show ?thesis using rec by simp
        next
          assume "scan rnd iv it ot n (i + 1) = rd ot 0"
            "i + 1 \<le> n - 1 \<and> n \<le> int (length it) \<longrightarrow> it ! nat (n - 1) < iv"
          then show ?thesis using rec step by simp
        next
          fix j
          assume j: "i + 1 \<le> j" "j < n - 1" "j + 1 < int (length it)" "j + 1 < int (length ot)"
            "it ! nat j < iv" "iv \<le> it ! nat (j + 1)"
            "\<forall>k. i + 1 \<le> k \<and> k < j \<longrightarrow> it ! nat (k + 1) < iv"
            "scan rnd iv it ot n (i + 1)
               = lerp rnd iv (it ! nat j) (ot ! nat j) (it ! nat (j + 1)) (ot ! nat (j + 1))"
          have "i \<le> j \<and> j < n - 1 \<and> j + 1 < int (length it) \<and> j + 1 < int (length ot)
              \<and> it ! nat j < iv \<and> iv \<le> it ! nat (j + 1)
              \<and> (\<forall>k. i \<le> k \<and> k < j \<longrightarrow> it ! nat (k + 1) < iv)
              \<and> scan rnd iv it ot n i
                  = lerp rnd iv (it ! nat j) (ot ! nat j) (it ! nat (j + 1)) (ot ! nat (j + 1))"
            using j all [OF j(7)] rec by simp
          then show ?thesis by blast
        qed
      qed
    qed
  qed
qed

subsection \<open>Single precision\<close>

lemma rne_int [simp]: "rne (real_of_int n) = n"
  by (simp add: rne_def)

lemma rne_mono:
  assumes "x \<le> y"
  shows "rne x \<le> rne y"
proof (cases "\<lfloor>x\<rfloor> = \<lfloor>y\<rfloor>")
  case True
  with assms show ?thesis by (auto simp: rne_def)
next
  case False
  then have "\<lfloor>x\<rfloor> < \<lfloor>y\<rfloor>" using assms floor_mono [of x y] by simp
  moreover have "rne x \<le> \<lfloor>x\<rfloor> + 1" "\<lfloor>y\<rfloor> \<le> rne y" by (simp_all add: rne_def)
  ultimately show ?thesis by linarith
qed

lemma rne_ge: "real_of_int a \<le> x \<Longrightarrow> a \<le> rne x"
  using rne_mono [of "real_of_int a" x] by simp

lemma rne_le: "x \<le> real_of_int b \<Longrightarrow> rne x \<le> b"
  using rne_mono [of x "real_of_int b"] by simp

text \<open>The rounding of a positive value in the binade \<open>e\<close>.\<close>

lemma rnd32_binade:
  assumes "2 powr real_of_int e \<le> x" "x < 2 powr (real_of_int e + 1)"
  shows "rnd32 x = 2 powr (real_of_int e - 23) * real_of_int (rne (x / 2 powr (real_of_int e - 23)))"
proof -
  have "0 < 2 powr real_of_int e" by simp
  then have pos: "0 < x" using assms(1) by linarith
  then have "\<lfloor>log 2 x\<rfloor> = e" using assms by (simp add: floor_log_eq_powr_iff)
  then show ?thesis using pos by (simp add: rnd32_def Let_def)
qed

lemma rnd32_binade_range:
  assumes "2 powr real_of_int e \<le> x" "x < 2 powr (real_of_int e + 1)"
  shows "2 powr real_of_int e \<le> rnd32 x" "rnd32 x \<le> 2 powr (real_of_int e + 1)"
proof -
  let ?u = "2 powr (real_of_int e - 23)"
  have u: "0 < ?u" by simp
  have lo: "2 powr real_of_int e = ?u * 2 ^ 23" and hi: "2 powr (real_of_int e + 1) = ?u * 2 ^ 24"
    by (simp_all add: powr_diff powr_add)
  have "real_of_int (2 ^ 23) \<le> x / ?u" using assms(1) u by (simp add: lo pos_le_divide_eq mult.commute)
  then have a: "2 ^ 23 \<le> rne (x / ?u)" by (rule rne_ge)
  have "x / ?u \<le> real_of_int (2 ^ 24)" using assms(2) u by (simp add: hi pos_divide_le_eq mult.commute)
  then have b: "rne (x / ?u) \<le> 2 ^ 24" by (rule rne_le)
  have "real_of_int (2 ^ 23) \<le> real_of_int (rne (x / ?u))"
    using a by (simp only: of_int_le_iff)
  then have "?u * 2 ^ 23 \<le> ?u * real_of_int (rne (x / ?u))"
    using u by (simp add: mult_le_cancel_left_pos)
  then show "2 powr real_of_int e \<le> rnd32 x"
    using rnd32_binade [OF assms] lo by simp
  have "real_of_int (rne (x / ?u)) \<le> real_of_int (2 ^ 24)"
    using b by (simp only: of_int_le_iff)
  then have "?u * real_of_int (rne (x / ?u)) \<le> ?u * 2 ^ 24"
    using u by (simp add: mult_le_cancel_left_pos)
  then show "rnd32 x \<le> 2 powr (real_of_int e + 1)"
    using rnd32_binade [OF assms] hi by simp
qed

lemma binade_of_pos:
  assumes "0 < x"
  shows "2 powr real_of_int \<lfloor>log 2 x\<rfloor> \<le> x" "x < 2 powr (real_of_int \<lfloor>log 2 x\<rfloor> + 1)"
  using assms floor_log_eq_powr_iff [of x 2 "\<lfloor>log 2 x\<rfloor>"] by simp_all

lemma rnd32_mono_pos:
  assumes "0 < x" "x \<le> y"
  shows "rnd32 x \<le> rnd32 y"
proof -
  define e where "e = \<lfloor>log 2 x\<rfloor>"
  define f where "f = \<lfloor>log 2 y\<rfloor>"
  have y: "0 < y" using assms by simp
  have bx: "2 powr real_of_int e \<le> x" "x < 2 powr (real_of_int e + 1)"
    unfolding e_def using assms(1) by (rule binade_of_pos)+
  have bY: "2 powr real_of_int f \<le> y" "y < 2 powr (real_of_int f + 1)"
    unfolding f_def using y by (rule binade_of_pos)+
  have "log 2 x \<le> log 2 y" using assms by simp
  then have ef: "e \<le> f" unfolding e_def f_def by (rule floor_mono)
  show ?thesis
  proof (cases "e = f")
    case True
    let ?u = "2 powr (real_of_int e - 23)"
    have "x / ?u \<le> y / ?u" using assms(2) by (simp add: divide_right_mono)
    then have "rne (x / ?u) \<le> rne (y / ?u)" by (rule rne_mono)
    then have "?u * real_of_int (rne (x / ?u)) \<le> ?u * real_of_int (rne (y / ?u))"
      by (simp add: mult_le_cancel_left_pos)
    then show ?thesis
      using rnd32_binade [OF bx] rnd32_binade [OF bY [folded True]] by simp
  next
    case False
    then have "real_of_int e + 1 \<le> real_of_int f" using ef by linarith
    then have "(2::real) powr (real_of_int e + 1) \<le> 2 powr real_of_int f" by simp
    then show ?thesis
      using rnd32_binade_range(2) [OF bx] rnd32_binade_range(1) [OF bY] by linarith
  qed
qed

lemma rnd32_nonneg:
  assumes "0 \<le> x"
  shows "0 \<le> rnd32 x"
proof (cases "x = 0")
  case True
  then show ?thesis by (simp add: rnd32_def)
next
  case False
  let ?u = "2 powr (real_of_int \<lfloor>log 2 x\<rfloor> - 23)"
  have "real_of_int 0 \<le> x / ?u" using assms by simp
  then have "0 \<le> rne (x / ?u)" by (rule rne_ge)
  then have "0 \<le> ?u * real_of_int (rne (x / ?u))" by simp
  then show ?thesis using False assms by (simp add: rnd32_def Let_def sgn_if)
qed

lemma rnd32_minus: "rnd32 (- x) = - rnd32 x"
  by (simp add: rnd32_def Let_def sgn_if)

lemma rnd32_mono:
  assumes "x \<le> y"
  shows "rnd32 x \<le> rnd32 y"
proof (cases "0 < x")
  case True
  then show ?thesis using assms by (rule rnd32_mono_pos)
next
  case nx: False
  show ?thesis
  proof (cases "0 \<le> y")
    case True
    have "0 \<le> rnd32 (- x)" using nx by (intro rnd32_nonneg) simp
    then have "rnd32 x \<le> 0" using rnd32_minus [of x] by simp
    then show ?thesis using rnd32_nonneg [OF True] by linarith
  next
    case False
    then have "0 < - y" "- y \<le> - x" using assms by simp_all
    then have "rnd32 (- y) \<le> rnd32 (- x)" by (rule rnd32_mono_pos)
    then show ?thesis by (simp add: rnd32_minus)
  qed
qed


lemma rnd32_integral:
  assumes "2 powr real_of_int e \<le> x" "x < 2 powr (real_of_int e + 1)"
    and "x / 2 powr (real_of_int e - 23) = real_of_int z"
  shows "rnd32 x = x"
proof -
  have "rnd32 x = 2 powr (real_of_int e - 23) * real_of_int (rne (real_of_int z))"
    using rnd32_binade [OF assms(1,2)] assms(3) by simp
  also have "\<dots> = 2 powr (real_of_int e - 23) * (x / 2 powr (real_of_int e - 23))"
    using assms(3) by simp
  also have "\<dots> = x" by simp
  finally show ?thesis .
qed

lemma rnd32_exact_pos:
  assumes m: "0 < m" "m \<le> 2 ^ 24"
  shows "rnd32 (real_of_int m / 2 ^ k) = real_of_int m / 2 ^ k"
proof -
  define x where "x = real_of_int m / 2 ^ k"
  define e where "e = \<lfloor>log 2 x\<rfloor>"
  define j where "j = 23 - e - int k"
  have pos: "0 < x" unfolding x_def using m by simp
  have b: "2 powr real_of_int e \<le> x" "x < 2 powr (real_of_int e + 1)"
    unfolding e_def using pos by (rule binade_of_pos)+
  let ?u = "2 powr (real_of_int e - 23)"
  have "x = real_of_int m * 2 powr (- real k)"
    unfolding x_def by (simp add: powr_minus powr_realpow divide_inverse)
  then have "x / ?u = real_of_int m * (2 powr (- real k) / ?u)" by simp
  also have "2 powr (- real k) / ?u = 2 powr real_of_int j"
  proof -
    have "- real k - (real_of_int e - 23) = real_of_int j" unfolding j_def by simp
    then show ?thesis by (simp only: powr_diff [symmetric])
  qed
  finally have xu: "x / ?u = real_of_int m * 2 powr real_of_int j" .
  have lo: "2 ^ 23 \<le> x / ?u"
  proof -
    have "2 powr real_of_int e = ?u * 2 ^ 23" by (simp add: powr_diff)
    then show ?thesis using b(1) by (simp add: pos_le_divide_eq mult.commute)
  qed
  have "\<exists>z. x / ?u = real_of_int z"
  proof (cases "0 \<le> j")
    case True
    then have "2 powr real_of_int j = 2 ^ nat j"
      using powr_realpow [of 2 "nat j"] by simp
    then have "x / ?u = real_of_int (m * 2 ^ nat j)" using xu by simp
    then show ?thesis by blast
  next
    case False
    define d where "d = nat (- j)"
    have d: "1 \<le> d" "real_of_int j = - real d" using False by (simp_all add: d_def)
    have "2 powr real_of_int j = 1 / 2 ^ d"
      using powr_realpow [of 2 d] by (simp add: d(2) powr_minus divide_inverse)
    then have q: "x / ?u = real_of_int m / 2 ^ d" using xu by simp
    then have "2 ^ 23 * 2 ^ d \<le> real_of_int m" using lo by (simp add: pos_le_divide_eq)
    moreover have "real_of_int m \<le> 2 ^ 24"
      using m(2) of_int_le_iff [of m "2 ^ 24", where ?'a = real] by simp
    ultimately have le: "(2::real) ^ 23 * 2 ^ d \<le> 2 ^ 24" by linarith
    then have "(2::real) ^ d \<le> 2 ^ 1" by simp
    then have "d \<le> 1" by (simp only: power_increasing_iff)
    then have d1: "d = 1" using d(1) by simp
    have "2 ^ 24 \<le> real_of_int m" using \<open>2 ^ 23 * 2 ^ d \<le> real_of_int m\<close> d1 by simp
    then have "real_of_int m = 2 ^ 24" using \<open>real_of_int m \<le> 2 ^ 24\<close> by linarith
    then have "x / ?u = real_of_int (2 ^ 23)" using q d1 by simp
    then show ?thesis by blast
  qed
  then obtain z where "x / ?u = real_of_int z" by blast
  with b have "rnd32 x = x" by (rule rnd32_integral)
  then show ?thesis by (simp add: x_def)
qed

lemma float_rounding_rnd32: "float_rounding rnd32"
proof -
  have "rnd32 (real_of_int m / 2 ^ k) = real_of_int m / 2 ^ k" if "\<bar>m\<bar> \<le> 2 ^ 24" for m k
  proof (cases "0 < m")
    case True
    then show ?thesis using that by (intro rnd32_exact_pos) simp_all
  next
    case False
    show ?thesis
    proof (cases "m = 0")
      case True
      then show ?thesis by (simp add: rnd32_def)
    next
      case nz: False
      then have "0 < - m" "- m \<le> 2 ^ 24" using False that by simp_all
      then have "rnd32 (real_of_int (- m) / 2 ^ k) = real_of_int (- m) / 2 ^ k"
        by (rule rnd32_exact_pos)
      then show ?thesis using rnd32_minus [of "real_of_int m / 2 ^ k"] by simp
    qed
  qed
  then show ?thesis unfolding float_rounding_def using rnd32_mono by blast
qed

text \<open>The rounding of a value of at least \<open>2 ^ 23\<close>, and of a smaller one.\<close>

lemma rnd32_scaled_down:
  assumes "2 ^ (23 + n) \<le> x" "x < 2 ^ (24 + n)"
  shows "rnd32 x = 2 ^ n * real_of_int (rne (x / 2 ^ n))"
proof -
  have a: "2 powr real_of_int (23 + int n) = 2 ^ (23 + n)"
    using powr_realpow [of 2 "23 + n"] by simp
  have b: "2 powr (real_of_int (23 + int n) + 1) = 2 ^ (24 + n)"
    using powr_realpow [of 2 "24 + n"] by (simp add: add.commute)
  have c: "2 powr (real_of_int (23 + int n) - 23) = 2 ^ n"
    using powr_realpow [of 2 n] by simp
  have "2 powr real_of_int (23 + int n) \<le> x" "x < 2 powr (real_of_int (23 + int n) + 1)"
    using assms by (simp_all only: a b)
  from rnd32_binade [OF this] show ?thesis by (simp only: c)
qed

lemma rnd32_scaled_up:
  assumes "2 ^ 23 \<le> x * 2 ^ n" "x * 2 ^ n < 2 ^ 24"
  shows "rnd32 x = real_of_int (rne (x * 2 ^ n)) / 2 ^ n"
proof -
  have p: "2 powr real n = 2 ^ n" using powr_realpow [of 2 n] by simp
  have a: "2 powr real_of_int (23 - int n) = 2 ^ 23 / 2 ^ n"
    by (simp add: powr_diff p)
  have b: "2 powr (real_of_int (23 - int n) + 1) = 2 ^ 24 / 2 ^ n"
  proof -
    have "real_of_int (23 - int n) + 1 = 24 - real n" by simp
    then show ?thesis by (simp only: powr_diff p) simp
  qed
  have c: "2 powr (real_of_int (23 - int n) - 23) = 1 / 2 ^ n"
  proof -
    have "real_of_int (23 - int n) - 23 = - real n" by simp
    then show ?thesis by (simp only: powr_minus p) (simp add: divide_inverse)
  qed
  have "2 powr real_of_int (23 - int n) \<le> x" "x < 2 powr (real_of_int (23 - int n) + 1)"
    using assms by (simp_all only: a b) (simp_all add: pos_divide_le_eq pos_less_divide_eq)
  from rnd32_binade [OF this] show ?thesis by (simp only: c) simp
qed

lemma rnd32_product: "rnd32 16922691 = 16922692"
proof -
  have "rnd32 16922691 = 2 ^ 1 * real_of_int (rne (16922691 / 2 ^ 1))"
    by (rule rnd32_scaled_down) simp_all
  also have "rne (16922691 / 2 ^ 1) = 8461346" by (simp add: rne_def)
  finally show ?thesis by simp
qed

lemma rnd32_quotient: "rnd32 (16922692 / 683) = 12685825 / 512"
proof -
  have "rnd32 (16922692 / 683) = real_of_int (rne (16922692 / 683 * 2 ^ 9)) / 2 ^ 9"
    by (rule rnd32_scaled_up) simp_all
  also have "rne (16922692 / 683 * 2 ^ 9) = 12685825" by (simp add: rne_def)
  finally show ?thesis by simp
qed

subsection \<open>Interpolation inside a segment\<close>

lemma trunc_mono:
  assumes "x \<le> y"
  shows "trunc x \<le> trunc y"
proof (cases "0 \<le> x")
  case True
  then show ?thesis using assms by (simp add: trunc_def floor_mono)
next
  case neg: False
  show ?thesis
  proof (cases "0 \<le> y")
    case True
    have "\<lceil>x\<rceil> \<le> 0" using neg by (simp add: ceiling_le_zero)
    moreover have "0 \<le> \<lfloor>y\<rfloor>" using True by simp
    ultimately have "\<lceil>x\<rceil> \<le> \<lfloor>y\<rfloor>" by (rule order_trans)
    then show ?thesis using neg True by (simp add: trunc_def)
  next
    case False
    then show ?thesis using neg assms by (simp add: trunc_def ceiling_mono)
  qed
qed

lemma trunc_int [simp]: "trunc (real_of_int n) = n"
  by (simp add: trunc_def)

lemma small_real:
  assumes "\<bar>n\<bar> \<le> 8388608"
  shows "- 8388608 \<le> real_of_int n" "real_of_int n \<le> 8388608"
proof -
  have "- 8388608 \<le> n" "n \<le> 8388608" using assms by linarith+
  then show "- 8388608 \<le> real_of_int n" "real_of_int n \<le> 8388608" by linarith+
qed


lemma to_long_between:
  assumes "real_of_int a \<le> r" "r \<le> real_of_int b" "\<bar>a\<bar> \<le> 8388608" "\<bar>b\<bar> \<le> 8388608"
  shows "\<exists>v. to_long r = Inr v \<and> a \<le> v \<and> v \<le> b"
proof -
  have "trunc (real_of_int a) \<le> trunc r" using assms(1) by (rule trunc_mono)
  moreover have "trunc r \<le> trunc (real_of_int b)" using assms(2) by (rule trunc_mono)
  ultimately have "a \<le> trunc r" "trunc r \<le> b" by simp_all
  moreover have "- 2147483649 < r" "r < 2147483648"
    using assms(1,2) small_real [OF assms(3)] small_real [OF assms(4)] by linarith+
  ultimately show ?thesis by (simp add: to_long_def)
qed

lemma to_long_mono:
  assumes "to_long r = Inr v" "to_long r' = Inr v'" "r \<le> r'"
  shows "v \<le> v'"
  using assms trunc_mono [of r r'] by (auto simp: to_long_def split: if_splits)

text \<open>The floating-point operations of \<open>lerp\<close> before the division are exact.\<close>

lemma lerp_exact:
  assumes fr: "float_rounding rnd"
    and b: "\<bar>xi\<bar> \<le> 8388608" "\<bar>xj\<bar> \<le> 8388608" "\<bar>yi\<bar> \<le> 8388608" "\<bar>yj\<bar> \<le> 8388608"
      "\<bar>(xj - xi) * (yj - yi)\<bar> \<le> 16777216"
    and iv: "xi < iv" "iv \<le> xj"
  shows "lerp rnd iv xi yi xj yj =
     to_long (rnd (real_of_int yi
        + rnd (real_of_int ((iv - xi) * (yj - yi)) / real_of_int (xj - xi))))"
proof -
  have x0: "rnd (real_of_int xi) = real_of_int xi" using fr by (rule rnd_int) (use b in simp)
  have x1: "rnd (real_of_int xj) = real_of_int xj" using fr by (rule rnd_int) (use b in simp)
  have y0: "rnd (real_of_int yi) = real_of_int yi" using fr by (rule rnd_int) (use b in simp)
  have y1: "rnd (real_of_int yj) = real_of_int yj" using fr by (rule rnd_int) (use b in simp)
  have v: "rnd (real_of_int iv) = real_of_int iv" using fr by (rule rnd_int) (use b iv in simp)
  have "rnd (real_of_int (iv - xi)) = real_of_int (iv - xi)"
    using fr by (rule rnd_int) (use b iv in simp)
  then have a: "rnd (real_of_int iv - real_of_int xi) = real_of_int (iv - xi)" by simp
  have "rnd (real_of_int (yj - yi)) = real_of_int (yj - yi)"
    using fr by (rule rnd_int) (use b in simp)
  then have d: "rnd (real_of_int yj - real_of_int yi) = real_of_int (yj - yi)" by simp
  have "rnd (real_of_int (xj - xi)) = real_of_int (xj - xi)"
    using fr by (rule rnd_int) (use b in simp)
  then have w: "rnd (real_of_int xj - real_of_int xi) = real_of_int (xj - xi)" by simp
  have "\<bar>iv - xi\<bar> \<le> \<bar>xj - xi\<bar>" using iv by simp
  then have "\<bar>iv - xi\<bar> * \<bar>yj - yi\<bar> \<le> \<bar>xj - xi\<bar> * \<bar>yj - yi\<bar>"
    by (rule mult_right_mono) simp
  then have "\<bar>(iv - xi) * (yj - yi)\<bar> \<le> 2 ^ 24" using b(5) by (simp add: abs_mult)
  with fr have "rnd (real_of_int ((iv - xi) * (yj - yi))) = real_of_int ((iv - xi) * (yj - yi))"
    by (rule rnd_int)
  then have p: "rnd (real_of_int (iv - xi) * real_of_int (yj - yi))
      = real_of_int ((iv - xi) * (yj - yi))"
    by simp
  have nz: "real_of_int (xj - xi) \<noteq> 0" using iv by simp
  show ?thesis
    unfolding lerp_def Let_def x0 x1 y0 y1 v a d w p using nz by simp
qed

lemma lerp_bounds:
  assumes fr: "float_rounding rnd"
    and b: "\<bar>xi\<bar> \<le> 8388608" "\<bar>xj\<bar> \<le> 8388608" "\<bar>yi\<bar> \<le> 8388608" "\<bar>yj\<bar> \<le> 8388608"
      "\<bar>(xj - xi) * (yj - yi)\<bar> \<le> 16777216"
    and iv: "xi < iv" "iv \<le> xj" and y: "yi \<le> yj"
  shows "\<exists>v. lerp rnd iv xi yi xj yj = Inr v \<and> yi \<le> v \<and> v \<le> yj"
proof -
  define q where "q = real_of_int ((iv - xi) * (yj - yi)) / real_of_int (xj - xi)"
  have w: "0 < real_of_int (xj - xi)" using iv by simp
  have "0 \<le> (iv - xi) * (yj - yi)" using iv y by simp
  then have "0 \<le> real_of_int ((iv - xi) * (yj - yi))" by (simp only: of_int_0_le_iff)
  then have q0: "0 \<le> q" unfolding q_def using w by (intro divide_nonneg_pos)
  have "(iv - xi) * (yj - yi) \<le> (xj - xi) * (yj - yi)"
    using iv y by (intro mult_right_mono) simp_all
  then have "real_of_int ((iv - xi) * (yj - yi)) \<le> real_of_int ((xj - xi) * (yj - yi))"
    by (simp only: of_int_le_iff)
  also have "\<dots> = real_of_int (yj - yi) * real_of_int (xj - xi)" by simp
  finally have q1: "q \<le> real_of_int (yj - yi)"
    unfolding q_def using w by (simp only: pos_divide_le_eq)
  have r0: "rnd 0 = 0" using rnd_int [OF fr, of 0] by simp
  have rb: "rnd (real_of_int (yj - yi)) = real_of_int (yj - yi)"
    using fr by (rule rnd_int) (use b in simp)
  have "rnd 0 \<le> rnd q" using fr q0 by (rule rnd_mono)
  moreover have "rnd q \<le> rnd (real_of_int (yj - yi))" using fr q1 by (rule rnd_mono)
  ultimately have rq: "0 \<le> rnd q" "rnd q \<le> real_of_int (yj - yi)" using r0 rb by simp_all
  have y0: "rnd (real_of_int yi) = real_of_int yi" using fr by (rule rnd_int) (use b in simp)
  have y1: "rnd (real_of_int yj) = real_of_int yj" using fr by (rule rnd_int) (use b in simp)
  have "rnd (real_of_int yi) \<le> rnd (real_of_int yi + rnd q)"
    using fr by (rule rnd_mono) (use rq in simp)
  moreover have "rnd (real_of_int yi + rnd q) \<le> rnd (real_of_int yj)"
    using fr by (rule rnd_mono) (use rq in simp)
  ultimately have "real_of_int yi \<le> rnd (real_of_int yi + rnd q)"
    "rnd (real_of_int yi + rnd q) \<le> real_of_int yj"
    using y0 y1 by simp_all
  then have "\<exists>v. to_long (rnd (real_of_int yi + rnd q)) = Inr v \<and> yi \<le> v \<and> v \<le> yj"
    using b(3,4) by (rule to_long_between)
  then show ?thesis
    unfolding lerp_exact [OF fr b iv] q_def .
qed

lemma lerp_mono:
  assumes fr: "float_rounding rnd"
    and b: "\<bar>xi\<bar> \<le> 8388608" "\<bar>xj\<bar> \<le> 8388608" "\<bar>yi\<bar> \<le> 8388608" "\<bar>yj\<bar> \<le> 8388608"
      "\<bar>(xj - xi) * (yj - yi)\<bar> \<le> 16777216"
    and iv: "xi < iv" "iv \<le> iv'" "iv' \<le> xj" and y: "yi \<le> yj"
    and r: "lerp rnd iv xi yi xj yj = Inr v" "lerp rnd iv' xi yi xj yj = Inr v'"
  shows "v \<le> v'"
proof -
  let ?q = "\<lambda>s. real_of_int ((s - xi) * (yj - yi)) / real_of_int (xj - xi)"
  have w: "0 < real_of_int (xj - xi)" using iv by simp
  have "(iv - xi) * (yj - yi) \<le> (iv' - xi) * (yj - yi)"
    using iv y by (intro mult_right_mono) simp_all
  then have "real_of_int ((iv - xi) * (yj - yi)) \<le> real_of_int ((iv' - xi) * (yj - yi))"
    by (simp only: of_int_le_iff)
  then have "?q iv \<le> ?q iv'" using w by (intro divide_right_mono) simp_all
  with fr have "rnd (?q iv) \<le> rnd (?q iv')" by (rule rnd_mono)
  then have "real_of_int yi + rnd (?q iv) \<le> real_of_int yi + rnd (?q iv')" by simp
  with fr have le: "rnd (real_of_int yi + rnd (?q iv)) \<le> rnd (real_of_int yi + rnd (?q iv'))"
    by (rule rnd_mono)
  have "to_long (rnd (real_of_int yi + rnd (?q iv))) = Inr v"
    using r(1) lerp_exact [OF fr b, of iv] iv by simp
  moreover have "to_long (rnd (real_of_int yi + rnd (?q iv'))) = Inr v'"
    using r(2) lerp_exact [OF fr b, of iv'] iv by simp
  ultimately show ?thesis using le by (rule to_long_mono)
qed



subsection \<open>Interpolation over a table\<close>

lemma table_shape_size:
  assumes "table_shape it ot n"
  shows "1 \<le> n" "n \<le> int (length it)" "n \<le> int (length ot)"
  using assms by (cases it; simp add: table_shape_def)+

lemma sorted_nth_int:
  assumes "sorted a" "0 \<le> j" "j \<le> k" "k < int (length a)"
  shows "a ! nat j \<le> a ! nat k"
proof -
  have "nat j \<le> nat k" "nat k < length a" using assms(2-4) by (simp_all add: nat_less_iff)
  with assms(1) show ?thesis by (simp add: sorted_nth_mono)
qed

lemma entries_within_nth:
  assumes "entries_within B a" "0 \<le> j" "j < int (length a)"
  shows "\<bar>a ! nat j\<bar> \<le> B"
proof -
  have "nat j < length a" using assms(2,3) by (simp add: nat_less_iff)
  then have "a ! nat j \<in> set a" by simp
  with assms(1) show ?thesis by (simp add: entries_within_def)
qed

lemma products_fit_Suc:
  assumes "products_fit it ot" "Suc k < length it" "Suc k < length ot"
  shows "\<bar>(it ! Suc k - it ! k) * (ot ! Suc k - ot ! k)\<bar> \<le> 16777216"
  using assms
proof (induction it ot arbitrary: k rule: products_fit.induct)
  case (1 x x' xs y y' ys)
  show ?case
  proof (cases k)
    case 0
    then show ?thesis using "1.prems"(1) by simp
  next
    case (Suc k')
    then have "Suc k' < length (x' # xs)" "Suc k' < length (y' # ys)"
      using "1.prems"(2,3) by simp_all
    moreover have "products_fit (x' # xs) (y' # ys)" using "1.prems"(1) by simp
    ultimately have "\<bar>((x' # xs) ! Suc k' - (x' # xs) ! k') * ((y' # ys) ! Suc k' - (y' # ys) ! k')\<bar>
        \<le> 16777216"
      by (intro "1.IH")
    then show ?thesis using Suc by simp
  qed
qed simp_all

text \<open>What the conditions of exactness say about the segment \<open>j\<close> of a table.\<close>

lemma segment_fits:
  assumes sh: "table_shape it ot n"
    and ei: "entries_within 8388608 it" and eo: "entries_within 8388608 ot"
    and pf: "products_fit it ot" and j: "0 \<le> j" "j < n - 1"
  shows "\<bar>it ! nat j\<bar> \<le> 8388608" "\<bar>it ! nat (j + 1)\<bar> \<le> 8388608"
    "\<bar>ot ! nat j\<bar> \<le> 8388608" "\<bar>ot ! nat (j + 1)\<bar> \<le> 8388608"
    "\<bar>(it ! nat (j + 1) - it ! nat j) * (ot ! nat (j + 1) - ot ! nat j)\<bar> \<le> 16777216"
proof -
  have len: "n = int (length it)" "length ot = length it"
    using sh by (simp_all add: table_shape_def)
  have r: "j < int (length it)" "j + 1 < int (length it)" "0 \<le> j + 1"
    "j < int (length ot)" "j + 1 < int (length ot)"
    using j len by simp_all
  show "\<bar>it ! nat j\<bar> \<le> 8388608" using ei j(1) r(1) by (rule entries_within_nth)
  show "\<bar>it ! nat (j + 1)\<bar> \<le> 8388608" using ei r(3,2) by (rule entries_within_nth)
  show "\<bar>ot ! nat j\<bar> \<le> 8388608" using eo j(1) r(4) by (rule entries_within_nth)
  show "\<bar>ot ! nat (j + 1)\<bar> \<le> 8388608" using eo r(3,5) by (rule entries_within_nth)
  have s: "nat (j + 1) = Suc (nat j)" using j(1) by (simp add: nat_add_distrib)
  have "Suc (nat j) < length it" "Suc (nat j) < length ot"
    using r(2,5) j(1) by (simp_all add: nat_less_iff flip: s)
  with pf have "\<bar>(it ! Suc (nat j) - it ! nat j) * (ot ! Suc (nat j) - ot ! nat j)\<bar> \<le> 16777216"
    by (rule products_fit_Suc)
  then show "\<bar>(it ! nat (j + 1) - it ! nat j) * (ot ! nat (j + 1) - ot ! nat j)\<bar> \<le> 16777216"
    by (simp only: s)
qed

lemma rd_first_last:
  assumes "1 \<le> n" "n \<le> int (length a)"
  shows "rd a 0 = Inr (a ! 0)" "rd a (n - 1) = Inr (a ! nat (n - 1))"
proof -
  have "(0::int) \<le> 0" "0 < int (length a)" "0 \<le> n - 1" "n - 1 < int (length a)"
    using assms by linarith+
  then show "rd a 0 = Inr (a ! 0)" "rd a (n - 1) = Inr (a ! nat (n - 1))"
    using rd_Inr [of 0 a] rd_Inr [of "n - 1" a] by simp_all
qed

lemma interpolate_low:
  assumes "1 \<le> n" "n \<le> int (length it)" "n \<le> int (length ot)" "iv \<le> it ! 0"
  shows "interpolate rnd iv it ot n = Inr (ot ! 0)"
  using assms(4) rd_first_last [OF assms(1,2)] rd_first_last [OF assms(1,3)]
  by (simp add: interpolate_def)

lemma interpolate_high:
  assumes "1 \<le> n" "n \<le> int (length it)" "n \<le> int (length ot)"
    "it ! 0 < iv" "it ! nat (n - 1) \<le> iv"
  shows "interpolate rnd iv it ot n = Inr (ot ! nat (n - 1))"
  using assms(4,5) rd_first_last [OF assms(1,2)] rd_first_last [OF assms(1,3)]
  by (simp add: interpolate_def)

lemma interpolate_mid:
  assumes "1 \<le> n" "n \<le> int (length it)" "n \<le> int (length ot)"
    "it ! 0 < iv" "iv < it ! nat (n - 1)"
  shows "\<exists>j. 0 \<le> j \<and> j < n - 1 \<and> it ! nat j < iv \<and> iv \<le> it ! nat (j + 1)
           \<and> (\<forall>k. 0 \<le> k \<and> k < j \<longrightarrow> it ! nat (k + 1) < iv)
           \<and> interpolate rnd iv it ot n
               = lerp rnd iv (it ! nat j) (ot ! nat j) (it ! nat (j + 1)) (ot ! nat (j + 1))"
proof -
  have eq: "interpolate rnd iv it ot n = scan rnd iv it ot n 0"
    using assms(4,5) rd_first_last [OF assms(1,2)] by (simp add: interpolate_def)
  have "(0::int) \<le> 0" "0 < int (length it) \<longrightarrow> it ! nat 0 < iv" using assms(4) by simp_all
  from scan_cases [OF this, of rnd ot n] show ?thesis
  proof (elim disjE conjE exE)
    assume "\<not> (n \<le> int (length it) \<and> n \<le> int (length ot))"
    then show ?thesis using assms by simp
  next
    assume "0 \<le> n - 1 \<and> n \<le> int (length it) \<longrightarrow> it ! nat (n - 1) < iv"
    then show ?thesis using assms by simp
  next
    fix j
    assume "0 \<le> j" "j < n - 1" "it ! nat j < iv" "iv \<le> it ! nat (j + 1)"
      "\<forall>k. 0 \<le> k \<and> k < j \<longrightarrow> it ! nat (k + 1) < iv"
      "scan rnd iv it ot n 0
         = lerp rnd iv (it ! nat j) (ot ! nat j) (it ! nat (j + 1)) (ot ! nat (j + 1))"
    then show ?thesis using eq by auto
  qed
qed

text \<open>The segment that the scan stops at, and the bounds of the result there.\<close>

lemma interpolate_segment:
  assumes ct: "curve_table it ot n"
    and ei: "entries_within 8388608 it" and eo: "entries_within 8388608 ot"
    and pf: "products_fit it ot" and fr: "float_rounding rnd"
    and iv: "it ! 0 < iv" "iv < it ! nat (n - 1)"
  shows "\<exists>j v. 0 \<le> j \<and> j < n - 1 \<and> it ! nat j < iv \<and> iv \<le> it ! nat (j + 1)
           \<and> (\<forall>k. 0 \<le> k \<and> k < j \<longrightarrow> it ! nat (k + 1) < iv)
           \<and> interpolate rnd iv it ot n
               = lerp rnd iv (it ! nat j) (ot ! nat j) (it ! nat (j + 1)) (ot ! nat (j + 1))
           \<and> interpolate rnd iv it ot n = Inr v
           \<and> ot ! nat j \<le> v \<and> v \<le> ot ! nat (j + 1)"
proof -
  have sh: "table_shape it ot n" and so: "sorted ot"
    using ct by (simp_all add: curve_table_def)
  have sz: "1 \<le> n" "n \<le> int (length it)" "n \<le> int (length ot)"
    using sh by (rule table_shape_size)+
  from interpolate_mid [OF sz iv, of rnd] obtain j where
    j: "0 \<le> j" "j < n - 1" "it ! nat j < iv" "iv \<le> it ! nat (j + 1)"
      "\<forall>k. 0 \<le> k \<and> k < j \<longrightarrow> it ! nat (k + 1) < iv"
    and eq: "interpolate rnd iv it ot n
               = lerp rnd iv (it ! nat j) (ot ! nat j) (it ! nat (j + 1)) (ot ! nat (j + 1))"
    by blast
  note b = segment_fits [OF sh ei eo pf j(1,2)]
  have y: "ot ! nat j \<le> ot ! nat (j + 1)"
    using so by (rule sorted_nth_int) (use j sz in simp_all)
  from lerp_bounds [OF fr b j(3,4) y] obtain v where
    v: "lerp rnd iv (it ! nat j) (ot ! nat j) (it ! nat (j + 1)) (ot ! nat (j + 1)) = Inr v"
    "ot ! nat j \<le> v" "v \<le> ot ! nat (j + 1)"
    by blast
  have "interpolate rnd iv it ot n = Inr v" using eq v(1) by simp
  with j eq v(2,3) show ?thesis by blast
qed

lemma interpolate_range:
  assumes ct: "curve_table inputTable outputTable tableLen"
    and ei: "entries_within 8388608 inputTable" and eo: "entries_within 8388608 outputTable"
    and pf: "products_fit inputTable outputTable" and fr: "float_rounding rnd"
  shows "\<exists>v. interpolate rnd inputValue inputTable outputTable tableLen = Inr v
           \<and> outputTable ! 0 \<le> v \<and> v \<le> outputTable ! nat (tableLen - 1)"
proof -
  have sh: "table_shape inputTable outputTable tableLen" and so: "sorted outputTable"
    using ct by (simp_all add: curve_table_def)
  have sz: "1 \<le> tableLen" "tableLen \<le> int (length inputTable)"
      "tableLen \<le> int (length outputTable)"
    using sh by (rule table_shape_size)+
  have ends: "outputTable ! 0 \<le> outputTable ! nat (tableLen - 1)"
    using sorted_nth_int [OF so, of 0 "tableLen - 1"] sz by simp
  show ?thesis
  proof (cases "inputValue \<le> inputTable ! 0")
    case True
    then show ?thesis using interpolate_low [OF sz True, of rnd] ends by simp
  next
    case False
    then have lo: "inputTable ! 0 < inputValue" by simp
    show ?thesis
    proof (cases "inputTable ! nat (tableLen - 1) \<le> inputValue")
      case True
      then show ?thesis using interpolate_high [OF sz lo True, of rnd] ends by simp
    next
      case False
      then have hi: "inputValue < inputTable ! nat (tableLen - 1)" by simp
      from interpolate_segment [OF ct ei eo pf fr lo hi] obtain j v where
        j: "0 \<le> j" "j < tableLen - 1"
        and v: "interpolate rnd inputValue inputTable outputTable tableLen = Inr v"
          "outputTable ! nat j \<le> v" "v \<le> outputTable ! nat (j + 1)"
        by blast
      have "outputTable ! 0 \<le> outputTable ! nat j"
        using sorted_nth_int [OF so, of 0 j] j sz by simp
      moreover have "outputTable ! nat (j + 1) \<le> outputTable ! nat (tableLen - 1)"
        using sorted_nth_int [OF so, of "j + 1" "tableLen - 1"] j sz by simp
      ultimately have "outputTable ! 0 \<le> v" "v \<le> outputTable ! nat (tableLen - 1)"
        using v(2,3) by linarith+
      with v(1) show ?thesis by blast
    qed
  qed
qed

lemma configured_tables:
  "curve_table throttlePoints frequencyPoints tableSize"
  "entries_within 8388608 throttlePoints" "entries_within 8388608 frequencyPoints"
  "products_fit throttlePoints frequencyPoints"
  by (simp_all add: curve_table_def table_shape_def entries_within_def throttlePoints_def
      frequencyPoints_def tableSize_def)

lemma interpolate_600: "interpolate exact 600 throttlePoints frequencyPoints tableSize = Inr 18"
  by (simp add: interpolate_def rd_def throttlePoints_def frequencyPoints_def tableSize_def
      lerp_def to_long_def trunc_def exact_def scan.simps)

text \<open>
  Claim C9, as the code has it. For a table whose inputs and outputs are in
  non-decreasing order, whose entries have a magnitude of at most \<open>2 ^ 23\<close> and whose
  segments have products of at most \<open>2 ^ 24\<close>, and for every sample, \<^verbatim>\<open>interpolate\<close>
  returns a value between the first and the last output entry, so the last output entry
  is the ceiling of the frequency in the sketches with a lookup table.
\<close>

theorem interpolate_bounded:
  assumes "curve_table inputTable outputTable tableLen"
    and "entries_within 8388608 inputTable" and "entries_within 8388608 outputTable"
    and "products_fit inputTable outputTable" and "float_rounding rnd"
  shows "\<exists>v. interpolate rnd inputValue inputTable outputTable tableLen = Inr v
           \<and> outputTable ! 0 \<le> v \<and> v \<le> outputTable ! nat (tableLen - 1)"
  using assms by (rule interpolate_range)

theorem interpolate_bounded_witness:
  "curve_table throttlePoints frequencyPoints tableSize
   \<and> entries_within 8388608 throttlePoints \<and> entries_within 8388608 frequencyPoints
   \<and> products_fit throttlePoints frequencyPoints \<and> float_rounding exact
   \<and> interpolate exact 600 throttlePoints frequencyPoints tableSize = Inr 18
   \<and> frequencyPoints ! 0 \<le> 18 \<and> 18 \<le> frequencyPoints ! nat (tableSize - 1)"
  using interpolate_bounded [OF configured_tables float_rounding_exact, of 600]
    configured_tables float_rounding_exact
  by (simp add: interpolate_600)

text \<open>
  Beyond these conditions the product of \<open>lerp\<close> is rounded. In single precision, with
  the inputs 259, 942, 1000 and the outputs -30281, -5504, -5504, the sample 942 gives
  \<open>683 * 24777 = 16922691\<close>, rounded to 16922692; the quotient by 683 is rounded to
  \<open>24777 + 1 / 512\<close>, and the sum \<open>- 5504 + 1 / 512\<close> is truncated to -5503.
\<close>

lemma rnd32_int:
  assumes "\<bar>m\<bar> \<le> 16777216"
  shows "rnd32 (real_of_int m) = real_of_int m"
  using float_rounding_rnd32 by (rule rnd_int) (use assms in simp)

lemma rnd32_steps:
  "rnd32 259 = 259" "rnd32 942 = 942" "rnd32 1000 = 1000" "rnd32 943 = 943"
  "rnd32 (- 30281) = - 30281" "rnd32 (- 5504) = - 5504"
  "rnd32 683 = 683" "rnd32 24777 = 24777" "rnd32 58 = 58" "rnd32 1 = 1" "rnd32 0 = 0"
  using rnd32_int [of 259] rnd32_int [of 942] rnd32_int [of 1000] rnd32_int [of 943]
    rnd32_int [of "- 30281"] rnd32_int [of "- 5504"] rnd32_int [of 683] rnd32_int [of 24777]
    rnd32_int [of 58] rnd32_int [of 1] rnd32_int [of 0]
  by simp_all

lemma rnd32_sum: "rnd32 (- (2818047 / 512)) = - (2818047 / 512)"
proof -
  have "rnd32 (real_of_int 2818047 / 2 ^ 9) = real_of_int 2818047 / 2 ^ 9"
    by (rule rnd32_exact_pos) simp_all
  then show ?thesis using rnd32_minus [of "2818047 / 512"] by simp
qed

lemma lerp_rnd32:
  "lerp rnd32 942 259 (- 30281) 942 (- 5504) = Inr (- 5503)"
  "lerp rnd32 943 942 (- 5504) 1000 (- 5504) = Inr (- 5504)"
  by (simp_all add: lerp_def rnd32_steps rnd32_product rnd32_quotient rnd32_sum
      to_long_def trunc_def)

lemma interpolate_rnd32:
  "interpolate rnd32 942 [259, 942, 1000] [- 30281, - 5504, - 5504] 3 = Inr (- 5503)"
  "interpolate rnd32 943 [259, 942, 1000] [- 30281, - 5504, - 5504] 3 = Inr (- 5504)"
  by (simp_all add: interpolate_def rd_def scan.simps lerp_rnd32)

theorem interpolate_bounded_counterexample:
  "float_rounding rnd32
   \<and> curve_table [259, 942, 1000] [- 30281, - 5504, - 5504] 3
   \<and> interpolate rnd32 942 [259, 942, 1000] [- 30281, - 5504, - 5504] 3 = Inr (- 5503)
   \<and> \<not> - 5503 \<le> [- 30281, - 5504, - 5504 :: int] ! nat (3 - 1)"
  using float_rounding_rnd32
  by (simp add: interpolate_rnd32 curve_table_def table_shape_def)

subsection \<open>Monotonicity of the curve\<close>

lemma constrain_mono: "a \<le> b \<Longrightarrow> low \<le> high \<Longrightarrow> constrain a low high \<le> constrain b low high"
  by (simp add: constrain_def)

lemma map_long_active:
  assumes "THROTTLE_MIN < x"
  shows "map_long x THROTTLE_MIN THROTTLE_MAX MIN_FREQUENCY MAX_FREQUENCY
           = (x - 220) * 20 div 600 + 5"
proof -
  have "0 \<le> (x - 220) * 20" using assms by (simp add: THROTTLE_MIN_def)
  then have "(x - 220) * 20 sdiv 600 = (x - 220) * 20 div 600"
    by (simp add: signed_divide_int_def sgn_if)
  then show ?thesis
    by (simp add: map_long_def THROTTLE_MIN_def THROTTLE_MAX_def MIN_FREQUENCY_def
        MAX_FREQUENCY_def)
qed

lemma map_long_fits:
  assumes "0 \<le> x" "x \<le> ADC_MAX"
  shows "\<bar>(x - THROTTLE_MIN) * (MAX_FREQUENCY - MIN_FREQUENCY)\<bar> < 2 ^ 31"
  using assms
  by (simp add: ADC_MAX_def THROTTLE_MIN_def MAX_FREQUENCY_def MIN_FREQUENCY_def abs_if)

lemma frequency_fixed_mono:
  assumes "THROTTLE_MIN < s1" "s1 \<le> s2"
  shows "frequency_fixed s1 \<le> frequency_fixed s2"
proof -
  have "(s1 - 220) * 20 \<le> (s2 - 220) * 20" using assms by simp
  then have "(s1 - 220) * 20 div 600 \<le> (s2 - 220) * 20 div 600"
    by (rule zdiv_mono1) simp
  then have "map_long s1 THROTTLE_MIN THROTTLE_MAX MIN_FREQUENCY MAX_FREQUENCY
      \<le> map_long s2 THROTTLE_MIN THROTTLE_MAX MIN_FREQUENCY MAX_FREQUENCY"
    using assms by (simp add: map_long_active)
  then show ?thesis
    unfolding frequency_fixed_def
    by (rule constrain_mono) (simp add: MIN_FREQUENCY_def MAX_FREQUENCY_def)
qed

lemma interpolate_mono:
  assumes ct: "curve_table it ot n"
    and ei: "entries_within 8388608 it" and eo: "entries_within 8388608 ot"
    and pf: "products_fit it ot" and fr: "float_rounding rnd" and le: "s1 \<le> s2"
  shows "\<exists>v1 v2. interpolate rnd s1 it ot n = Inr v1 \<and> interpolate rnd s2 it ot n = Inr v2
           \<and> v1 \<le> v2"
proof -
  have sh: "table_shape it ot n" and so: "sorted ot"
    using ct by (simp_all add: curve_table_def)
  have sz: "1 \<le> n" "n \<le> int (length it)" "n \<le> int (length ot)"
    using sh by (rule table_shape_size)+
  from interpolate_range [OF ct ei eo pf fr, of s1] obtain v1 where
    v1: "interpolate rnd s1 it ot n = Inr v1" "ot ! 0 \<le> v1" "v1 \<le> ot ! nat (n - 1)"
    by blast
  from interpolate_range [OF ct ei eo pf fr, of s2] obtain v2 where
    v2: "interpolate rnd s2 it ot n = Inr v2" "ot ! 0 \<le> v2" "v2 \<le> ot ! nat (n - 1)"
    by blast
  have "v1 \<le> v2"
  proof (cases "s1 \<le> it ! 0")
    case True
    then have "v1 = ot ! 0" using interpolate_low [OF sz True, of rnd] v1(1) by simp
    then show ?thesis using v2(2) by simp
  next
    case False
    then have lo1: "it ! 0 < s1" by simp
    then have lo2: "it ! 0 < s2" using le by simp
    show ?thesis
    proof (cases "it ! nat (n - 1) \<le> s2")
      case True
      then have "v2 = ot ! nat (n - 1)" using interpolate_high [OF sz lo2 True, of rnd] v2(1) by simp
      then show ?thesis using v1(3) by simp
    next
      case False
      then have hi2: "s2 < it ! nat (n - 1)" by simp
      then have hi1: "s1 < it ! nat (n - 1)" using le by simp
      from interpolate_segment [OF ct ei eo pf fr lo1 hi1] v1(1) obtain j1 where
        j1: "0 \<le> j1" "j1 < n - 1" "it ! nat j1 < s1" "s1 \<le> it ! nat (j1 + 1)"
          "\<forall>k. 0 \<le> k \<and> k < j1 \<longrightarrow> it ! nat (k + 1) < s1"
        and e1: "lerp rnd s1 (it ! nat j1) (ot ! nat j1) (it ! nat (j1 + 1)) (ot ! nat (j1 + 1))
                   = Inr v1"
        and b1: "ot ! nat j1 \<le> v1" "v1 \<le> ot ! nat (j1 + 1)"
        by (metis sum.inject(2))
      from interpolate_segment [OF ct ei eo pf fr lo2 hi2] v2(1) obtain j2 where
        j2: "0 \<le> j2" "j2 < n - 1" "it ! nat j2 < s2" "s2 \<le> it ! nat (j2 + 1)"
        and e2: "lerp rnd s2 (it ! nat j2) (ot ! nat j2) (it ! nat (j2 + 1)) (ot ! nat (j2 + 1))
                   = Inr v2"
        and b2: "ot ! nat j2 \<le> v2" "v2 \<le> ot ! nat (j2 + 1)"
        by (metis sum.inject(2))
      have "\<not> j2 < j1"
      proof
        assume "j2 < j1"
        then have "it ! nat (j2 + 1) < s1" using j1(5) j2(1) by simp
        then show False using j2(4) le by simp
      qed
      then have "j1 \<le> j2" by simp
      show ?thesis
      proof (cases "j1 = j2")
        case True
        note b = segment_fits [OF sh ei eo pf j1(1,2)]
        have y: "ot ! nat j1 \<le> ot ! nat (j1 + 1)"
          using sorted_nth_int [OF so, of j1 "j1 + 1"] j1 sz by simp
        have "s2 \<le> it ! nat (j1 + 1)" using j2(4) True by simp
        with fr b j1(3) le show ?thesis
          using y e1 e2 [folded True] by (rule lerp_mono)
      next
        case False
        then have "j1 + 1 \<le> j2" using \<open>j1 \<le> j2\<close> by simp
        then have "ot ! nat (j1 + 1) \<le> ot ! nat j2"
          using sorted_nth_int [OF so, of "j1 + 1" j2] j1 j2 sz by simp
        then show ?thesis using b1 b2 by simp
      qed
    qed
  qed
  with v1(1) v2(1) show ?thesis by blast
qed

text \<open>
  Claim C4, as the code has it. For two samples \<open>s1 < s2\<close> the mapped frequency of
  \<open>s1\<close> is at most that of \<open>s2\<close>: in the sketches with a lookup table for every table
  in non-decreasing order whose entries have a magnitude of at most \<open>2 ^ 23\<close> and whose
  segments have products of at most \<open>2 ^ 24\<close>, with the floating-point arithmetic and
  the truncation of \<^verbatim>\<open>interpolate\<close>, and in the sketch with the fixed calibration for
  samples of the ADC above \<^verbatim>\<open>THROTTLE_MIN\<close>.
\<close>

theorem curve_monotone:
  assumes ct: "curve_table inputTable outputTable tableLen"
    and ei: "entries_within 8388608 inputTable" and eo: "entries_within 8388608 outputTable"
    and pf: "products_fit inputTable outputTable" and fr: "float_rounding rnd"
    and le: "s1 < s2"
  shows "(\<exists>v1 v2. interpolate rnd s1 inputTable outputTable tableLen = Inr v1
            \<and> interpolate rnd s2 inputTable outputTable tableLen = Inr v2 \<and> v1 \<le> v2)
       \<and> (THROTTLE_MIN < s1 \<and> s2 \<le> ADC_MAX \<longrightarrow> frequency_fixed s1 \<le> frequency_fixed s2)"
proof -
  have "s1 \<le> s2" using le by simp
  then show ?thesis
    using interpolate_mono [OF ct ei eo pf fr] frequency_fixed_mono [of s1 s2] by blast
qed

lemma interpolate_300: "interpolate exact 300 throttlePoints frequencyPoints tableSize = Inr 4"
  by (simp add: interpolate_def rd_def throttlePoints_def frequencyPoints_def tableSize_def
      lerp_def to_long_def trunc_def exact_def scan.simps)

lemma frequency_fixed_300: "frequency_fixed 300 = 7" "frequency_fixed 600 = 17"
  by (simp_all add: frequency_fixed_def map_long_def constrain_def THROTTLE_MIN_def
      THROTTLE_MAX_def MIN_FREQUENCY_def MAX_FREQUENCY_def signed_divide_int_def)

theorem curve_monotone_witness:
  "curve_table throttlePoints frequencyPoints tableSize
   \<and> entries_within 8388608 throttlePoints \<and> entries_within 8388608 frequencyPoints
   \<and> products_fit throttlePoints frequencyPoints \<and> float_rounding exact
   \<and> (300::int) < 600 \<and> THROTTLE_MIN < 300 \<and> 600 \<le> ADC_MAX
   \<and> interpolate exact 300 throttlePoints frequencyPoints tableSize = Inr 4
   \<and> interpolate exact 600 throttlePoints frequencyPoints tableSize = Inr 18
   \<and> frequency_fixed 300 \<le> frequency_fixed 600"
  using curve_monotone [OF configured_tables float_rounding_exact, of 300 600]
    configured_tables float_rounding_exact
  by (simp add: interpolate_300 interpolate_600 THROTTLE_MIN_def ADC_MAX_def)

text \<open>
  With the table of inputs 259, 942, 1000 and outputs -30281, -5504, -5504, which is in
  non-decreasing order, and in single precision, the sample 942 maps to -5503 and the
  sample 943 to -5504.
\<close>

theorem curve_monotone_counterexample:
  "float_rounding rnd32
   \<and> curve_table [259, 942, 1000] [- 30281, - 5504, - 5504] 3
   \<and> [259, 942, 1000 :: int] ! 0 < 942 \<and> (942 :: int) < 943 \<and> (943 :: int) \<le> ADC_MAX
   \<and> interpolate rnd32 942 [259, 942, 1000] [- 30281, - 5504, - 5504] 3 = Inr (- 5503)
   \<and> interpolate rnd32 943 [259, 942, 1000] [- 30281, - 5504, - 5504] 3 = Inr (- 5504)
   \<and> \<not> (- 5503 :: int) \<le> - 5504"
  using float_rounding_rnd32
  by (simp add: interpolate_rnd32 curve_table_def table_shape_def ADC_MAX_def)

subsection \<open>Equal adjacent inputs\<close>



text \<open>
  Beyond \<open>2 ^ 24\<close> two different inputs can have the same value in single precision, and
  the division of their segment is then a division by zero.
\<close>

lemma rnd32_tie: "rnd32 16777217 = 16777216"
proof -
  have "rnd32 16777217 = 2 ^ 1 * real_of_int (rne (16777217 / 2 ^ 1))"
    by (rule rnd32_scaled_down) simp_all
  also have "rne (16777217 / 2 ^ 1) = 8388608" by (simp add: rne_def)
  finally show ?thesis by simp
qed

lemma interpolate_wide_inputs:
  "interpolate rnd32 16777217 [0, 16777216, 16777217, 33554432] [0, 1, 2, 3] 4
     = Inl DivisionByZero"
proof -
  have x: "rnd32 16777216 = 16777216" "rnd32 0 = 0"
    using rnd32_int [of 16777216] rnd32_int [of 0] by simp_all
  have "lerp rnd32 16777217 16777216 1 16777217 2 = Inl DivisionByZero"
    by (simp add: lerp_def Let_def rnd32_tie x)
  then show ?thesis
    by (simp add: interpolate_def rd_def scan.simps)
qed





subsection \<open>The scenario of the fixed calibration\<close>

lemma frequency_fixed_520: "frequency_fixed 520 = 15"
  by (simp add: frequency_fixed_def map_long_def constrain_def THROTTLE_MIN_def
      THROTTLE_MAX_def MIN_FREQUENCY_def MAX_FREQUENCY_def signed_divide_int_def)

lemma totalPeriod_15: "totalPeriod 15 = 66666"
  by (simp add: totalPeriod_def signed_divide_int_def)

lemma highTime_66666:
  assumes "float_rounding rnd"
  shows "highTime rnd 66666 = Inr 16666"
proof -
  have "unat (66666 :: ulong) \<le> 1000000" by simp
  with assms have "highTime rnd 66666 = Inr (66666 * word_of_int DUTY_CYCLE div 100)"
    by (rule highTime_exact)
  then show ?thesis by (simp add: DUTY_CYCLE_def)
qed

text \<open>
  Claim C7, as the code has it. With \<^verbatim>\<open>THROTTLE_MIN\<close> 220, \<^verbatim>\<open>THROTTLE_MAX\<close> 820,
  \<^verbatim>\<open>MIN_FREQUENCY\<close> 5, \<^verbatim>\<open>MAX_FREQUENCY\<close> 25 and \<^verbatim>\<open>DUTY_CYCLE\<close> 25, the sample
  520 maps to 15 Hz; the period is the integer quotient \<open>1000000 div 15 = 66666\<close>
  microseconds, the high hold duration 16666 and the low hold duration 50000
  microseconds, and these are the durations the state machine of that pass runs with.
\<close>

theorem fixed_scenario:
  assumes "float_rounding rnd"
  shows "frequency_fixed 520 = 15
       \<and> totalPeriod (frequency_fixed 520) = 66666
       \<and> highTime rnd (totalPeriod (frequency_fixed 520)) = Inr 16666
       \<and> totalPeriod (frequency_fixed 520) - 16666 = 50000
       \<and> loop_fixed rnd t 520 b = Inr (stateMachine t 16666 50000 (b\<lparr>throttleValue := 520\<rparr>))"
  using highTime_66666 [OF assms]
  by (simp add: frequency_fixed_520 totalPeriod_15 loop_fixed_def pulse_def THROTTLE_MIN_def)

theorem fixed_scenario_witness:
  "float_rounding exact
   \<and> loop_fixed exact 1000000 520 setup_basic
       = Inr \<lparr>throttleValue = 520, writes = [(PAS_PIN, True), (PAS_PIN, False)],
              pasState = True, previousMicros = 1000000\<rparr>
   \<and> loop_fixed exact 49999 520 setup_basic
       = Inr \<lparr>throttleValue = 520, writes = [(PAS_PIN, False)],
              pasState = False, previousMicros = 0\<rparr>"
  using fixed_scenario [OF float_rounding_exact, of 1000000 setup_basic]
    fixed_scenario [OF float_rounding_exact, of 49999 setup_basic] float_rounding_exact
  by (simp add: stateMachine_def setup_basic_def digitalWrite_def)

text \<open>The period at the sample 520 is not 66667 microseconds, nor the low duration 50001.\<close>

theorem fixed_scenario_counterexample:
  "\<not> (frequency_fixed 520 = 15
      \<and> totalPeriod (frequency_fixed 520) = 66667
      \<and> highTime exact (totalPeriod (frequency_fixed 520)) = Inr 16666
      \<and> totalPeriod (frequency_fixed 520) - 16666 = 50001)"
  by (simp add: frequency_fixed_520 totalPeriod_15)

subsection \<open>Passes of the loop\<close>

lemma processThrottleInput_dead:
  assumes "adc \<le> throttlePoints ! 0"
  shows "processThrottleInput rnd adc s
     = Inr (updateBuzzTimings 0 (updatePASTimings 0 (s\<lparr>throttleValue := adc\<rparr>)))"
  using assms by (simp add: processThrottleInput_def Let_def)

lemma processThrottleInput_active:
  assumes fr: "float_rounding rnd" and "throttlePoints ! 0 < adc"
  shows "\<exists>f. 0 \<le> f \<and> f \<le> 25
     \<and> interpolate rnd adc throttlePoints frequencyPoints tableSize = Inr f
     \<and> processThrottleInput rnd adc s
         = Inr (updateBuzzTimings f (updatePASTimings f (s\<lparr>throttleValue := adc\<rparr>)))"
proof -
  from interpolate_range [OF configured_tables fr, of adc] obtain f where
    f: "interpolate rnd adc throttlePoints frequencyPoints tableSize = Inr f"
      "frequencyPoints ! 0 \<le> f" "f \<le> frequencyPoints ! nat (tableSize - 1)"
    by blast
  have "0 \<le> f" "f \<le> 25"
    using f(2,3) by (simp_all add: frequencyPoints_def tableSize_def throttlePoints_def)
  moreover have "processThrottleInput rnd adc s
         = Inr (updateBuzzTimings f (updatePASTimings f (s\<lparr>throttleValue := adc\<rparr>)))"
    using assms(2) f(1) by (simp add: processThrottleInput_def Let_def)
  ultimately show ?thesis using f(1) by blast
qed

text \<open>The level flag of the PAS channel agrees with the level of the pin.\<close>

lemma pinLevel_digitalWrite [simp]:
  "pinLevel p (digitalWrite q v s) = (if p = q then Some v else pinLevel p s)"
  by (simp add: pinLevel_def digitalWrite_def)

lemma updatePASSignal_writes:
  "(writes (updatePASSignal t s) = writes s
      \<and> outputHigh (pas (updatePASSignal t s)) = outputHigh (pas s))
   \<or> writes (updatePASSignal t s) = (PAS_PIN, outputHigh (pas (updatePASSignal t s))) # writes s"
  by (simp add: updatePASSignal_def digitalWrite_def)

lemma updatePASSignal_level:
  assumes "pinLevel PAS_PIN s = Some (outputHigh (pas s))"
  shows "pinLevel PAS_PIN (updatePASSignal t s) = Some (outputHigh (pas (updatePASSignal t s)))"
  using assms by (simp add: updatePASSignal_def pinLevel_def digitalWrite_def)

lemma timings_level:
  "pinLevel PAS_PIN (updateBuzzTimings f (updatePASTimings f (s\<lparr>throttleValue := adc\<rparr>)))
     = pinLevel PAS_PIN s"
  "outputHigh (pas (updateBuzzTimings f (updatePASTimings f (s\<lparr>throttleValue := adc\<rparr>))))
     = outputHigh (pas s)"
  by (simp_all add: updateBuzzTimings_def updatePASTimings_def pinLevel_def Let_def)

lemma after_signal_level:
  "pinLevel PAS_PIN (updateSerialOutput t (updateBuzzSignal t s)) = pinLevel PAS_PIN s"
  "outputHigh (pas (updateSerialOutput t (updateBuzzSignal t s))) = outputHigh (pas s)"
  "currentFrequency (pas (updateSerialOutput t (updateBuzzSignal t s))) = currentFrequency (pas s)"
  by (simp_all add: updateSerialOutput_def updateBuzzSignal_def pinLevel_def digitalWrite_def)

lemma loop_v3_eq:
  assumes "processThrottleInput rnd adc s = Inr s1"
  shows "loop_v3 rnd t adc s
     = Inr (updateSerialOutput t (updateBuzzSignal t (updatePASSignal t s1)))"
  using assms by (simp add: loop_v3_def DEBUG_MODE_def)

lemma loop_v3_level:
  assumes fr: "float_rounding rnd" and inv: "pinLevel PAS_PIN s = Some (outputHigh (pas s))"
  shows "\<exists>s'. loop_v3 rnd t adc s = Inr s' \<and> pinLevel PAS_PIN s' = Some (outputHigh (pas s'))"
proof -
  obtain f where p: "processThrottleInput rnd adc s
         = Inr (updateBuzzTimings f (updatePASTimings f (s\<lparr>throttleValue := adc\<rparr>)))"
    using processThrottleInput_dead [of adc rnd s] processThrottleInput_active [OF fr, of adc s]
    by (cases "adc \<le> throttlePoints ! 0") auto
  let ?s1 = "updateBuzzTimings f (updatePASTimings f (s\<lparr>throttleValue := adc\<rparr>))"
  have "pinLevel PAS_PIN ?s1 = Some (outputHigh (pas ?s1))"
    using inv by (simp only: timings_level)
  then have "pinLevel PAS_PIN (updatePASSignal t ?s1)
      = Some (outputHigh (pas (updatePASSignal t ?s1)))"
    by (rule updatePASSignal_level)
  then have "pinLevel PAS_PIN (updateSerialOutput t (updateBuzzSignal t (updatePASSignal t ?s1)))
      = Some (outputHigh (pas (updateSerialOutput t (updateBuzzSignal t (updatePASSignal t ?s1)))))"
    by (simp only: after_signal_level)
  then show ?thesis using loop_v3_eq [OF p, of t] by simp
qed

lemma run_invariant:
  assumes step: "\<And>t adc s. P s \<Longrightarrow> \<exists>s'. loop t adc s = Inr s' \<and> P s'"
  shows "P s \<Longrightarrow> \<exists>s'. run loop passes s = Inr s' \<and> P s'"
proof (induction passes arbitrary: s)
  case Nil
  then show ?case by simp
next
  case (Cons p passes)
  obtain t adc where p: "p = (t, adc)" by (cases p)
  from step [OF Cons.prems, of t adc] obtain s1 where s1: "loop t adc s = Inr s1" "P s1"
    by blast
  from Cons.IH [OF s1(2)] show ?case using s1(1) p by simp
qed

lemma setup_v3_level: "pinLevel PAS_PIN setup_v3 = Some (outputHigh (pas setup_v3))"
  by (simp add: setup_v3_def pinLevel_def)

lemma run_v3_level:
  assumes fr: "float_rounding rnd"
  shows "\<exists>s'. run (loop_v3 rnd) passes setup_v3 = Inr s'
           \<and> pinLevel PAS_PIN s' = Some (outputHigh (pas s'))"
  using loop_v3_level [OF fr] setup_v3_level
  by (rule run_invariant [where P = "\<lambda>s. pinLevel PAS_PIN s = Some (outputHigh (pas s))"])

lemma pulse_eq:
  assumes fr: "float_rounding rnd" and f: "0 < f" "f < 2 ^ 31"
  shows "pulse rnd t f s
     = Inr (stateMachine t (totalPeriod f * word_of_int DUTY_CYCLE div 100)
              (totalPeriod f - totalPeriod f * word_of_int DUTY_CYCLE div 100) s)"
proof -
  have "unat (totalPeriod f) = 1000000 div nat f" using f by (rule unat_totalPeriod_basic)
  then have "unat (totalPeriod f) \<le> 1000000" by simp
  with fr have "highTime rnd (totalPeriod f)
      = Inr (totalPeriod f * word_of_int DUTY_CYCLE div 100)"
    by (rule highTime_exact)
  then show ?thesis by (simp add: pulse_def Let_def)
qed

lemma frequency_fixed_range: "5 \<le> frequency_fixed adc" "frequency_fixed adc \<le> 25"
  by (simp_all add: frequency_fixed_def constrain_def MIN_FREQUENCY_def MAX_FREQUENCY_def)

lemma stateMachine_level:
  assumes "pinLevel PAS_PIN s = Some (pasState s)"
  shows "pinLevel PAS_PIN (stateMachine t h l s) = Some (pasState (stateMachine t h l s))"
  using assms by (simp add: stateMachine_def pinLevel_def digitalWrite_def)

lemma forced_low_level:
  "pinLevel PAS_PIN ((digitalWrite PAS_PIN False s)\<lparr>pasState := False\<rparr>) = Some False"
  "pasState ((digitalWrite PAS_PIN False s)\<lparr>pasState := False\<rparr>) = False"
  by (simp_all add: pinLevel_def digitalWrite_def)

lemma loop_fixed_dead:
  assumes "adc \<le> THROTTLE_MIN"
  shows "loop_fixed rnd t adc s
     = Inr ((digitalWrite PAS_PIN False (s\<lparr>throttleValue := adc\<rparr>))\<lparr>pasState := False\<rparr>)"
  using assms by (simp add: loop_fixed_def Let_def)

lemma loop_fixed_active:
  assumes fr: "float_rounding rnd" and "THROTTLE_MIN < adc"
  shows "\<exists>h l. loop_fixed rnd t adc s = Inr (stateMachine t h l (s\<lparr>throttleValue := adc\<rparr>))"
proof -
  have "0 < frequency_fixed adc" "frequency_fixed adc < 2 ^ 31"
    using frequency_fixed_range [of adc] by simp_all
  from pulse_eq [OF fr this, of t "s\<lparr>throttleValue := adc\<rparr>"]
  have "loop_fixed rnd t adc s
      = Inr (stateMachine t (totalPeriod (frequency_fixed adc) * word_of_int DUTY_CYCLE div 100)
          (totalPeriod (frequency_fixed adc)
             - totalPeriod (frequency_fixed adc) * word_of_int DUTY_CYCLE div 100)
          (s\<lparr>throttleValue := adc\<rparr>))"
    using assms(2) by (simp add: loop_fixed_def Let_def)
  then show ?thesis by blast
qed

lemma loop_fixed_level:
  assumes fr: "float_rounding rnd" and inv: "pinLevel PAS_PIN s = Some (pasState s)"
  shows "\<exists>s'. loop_fixed rnd t adc s = Inr s' \<and> pinLevel PAS_PIN s' = Some (pasState s')"
proof (cases "adc \<le> THROTTLE_MIN")
  case True
  then show ?thesis by (simp add: loop_fixed_dead forced_low_level)
next
  case False
  then obtain h l where
    e: "loop_fixed rnd t adc s = Inr (stateMachine t h l (s\<lparr>throttleValue := adc\<rparr>))"
    using loop_fixed_active [OF fr, of adc t s] by auto
  have "pinLevel PAS_PIN (s\<lparr>throttleValue := adc\<rparr>) = Some (pasState (s\<lparr>throttleValue := adc\<rparr>))"
    using inv by (simp add: pinLevel_def)
  then have "pinLevel PAS_PIN (stateMachine t h l (s\<lparr>throttleValue := adc\<rparr>))
      = Some (pasState (stateMachine t h l (s\<lparr>throttleValue := adc\<rparr>)))"
    by (rule stateMachine_level)
  then show ?thesis using e by simp
qed

lemma loop_lut_dead:
  assumes "adc \<le> throttlePoints ! 0"
  shows "loop_lut rnd t adc s
     = Inr ((digitalWrite PAS_PIN False (s\<lparr>throttleValue := adc\<rparr>))\<lparr>pasState := False\<rparr>)"
  using assms by (simp add: loop_lut_def Let_def)

lemma loop_lut_active:
  assumes fr: "float_rounding rnd" and "throttlePoints ! 0 < adc"
  shows "(\<exists>h l. loop_lut rnd t adc s = Inr (stateMachine t h l (s\<lparr>throttleValue := adc\<rparr>)))
       \<or> loop_lut rnd t adc s
           = Inr ((digitalWrite PAS_PIN False (s\<lparr>throttleValue := adc\<rparr>))\<lparr>pasState := False\<rparr>)"
proof -
  from interpolate_range [OF configured_tables fr, of adc] obtain f where
    f: "interpolate rnd adc throttlePoints frequencyPoints tableSize = Inr f"
      "f \<le> frequencyPoints ! nat (tableSize - 1)"
    by blast
  have f25: "f \<le> 25"
    using f(2) by (simp add: frequencyPoints_def tableSize_def throttlePoints_def)
  show ?thesis
  proof (cases "0 < f")
    case True
    moreover have "f < 2 ^ 31" using f25 by simp
    ultimately have "pulse rnd t f (s\<lparr>throttleValue := adc\<rparr>)
        = Inr (stateMachine t (totalPeriod f * word_of_int DUTY_CYCLE div 100)
              (totalPeriod f - totalPeriod f * word_of_int DUTY_CYCLE div 100)
              (s\<lparr>throttleValue := adc\<rparr>))"
      using fr by (intro pulse_eq)
    then have "loop_lut rnd t adc s
        = Inr (stateMachine t (totalPeriod f * word_of_int DUTY_CYCLE div 100)
              (totalPeriod f - totalPeriod f * word_of_int DUTY_CYCLE div 100)
              (s\<lparr>throttleValue := adc\<rparr>))"
      using assms(2) f(1) True by (simp add: loop_lut_def Let_def)
    then show ?thesis by blast
  next
    case False
    then show ?thesis using assms(2) f(1) by (simp add: loop_lut_def Let_def)
  qed
qed

lemma loop_lut_level:
  assumes fr: "float_rounding rnd" and inv: "pinLevel PAS_PIN s = Some (pasState s)"
  shows "\<exists>s'. loop_lut rnd t adc s = Inr s' \<and> pinLevel PAS_PIN s' = Some (pasState s')"
proof (cases "adc \<le> throttlePoints ! 0")
  case True
  then show ?thesis by (simp add: loop_lut_dead forced_low_level)
next
  case False
  then have "throttlePoints ! 0 < adc" by simp
  from loop_lut_active [OF fr this, of t s] show ?thesis
  proof (elim disjE exE)
    fix h l
    assume e: "loop_lut rnd t adc s = Inr (stateMachine t h l (s\<lparr>throttleValue := adc\<rparr>))"
    have "pinLevel PAS_PIN (s\<lparr>throttleValue := adc\<rparr>) = Some (pasState (s\<lparr>throttleValue := adc\<rparr>))"
      using inv by (simp add: pinLevel_def)
    then have "pinLevel PAS_PIN (stateMachine t h l (s\<lparr>throttleValue := adc\<rparr>))
        = Some (pasState (stateMachine t h l (s\<lparr>throttleValue := adc\<rparr>)))"
      by (rule stateMachine_level)
    then show ?thesis using e by simp
  next
    assume "loop_lut rnd t adc s
           = Inr ((digitalWrite PAS_PIN False (s\<lparr>throttleValue := adc\<rparr>))\<lparr>pasState := False\<rparr>)"
    then show ?thesis by (simp add: forced_low_level)
  qed
qed

lemma setup_basic_level: "pinLevel PAS_PIN setup_basic = Some (pasState setup_basic)"
  by (simp add: setup_basic_def pinLevel_def)

text \<open>
  Claim C10. An evaluation of \<^verbatim>\<open>updatePASSignal\<close> either writes nothing to the pin
  and leaves the level flag as it is, or writes to the PAS pin the level it sets the flag
  to. So after \<^verbatim>\<open>setup\<close> and any number of passes of \<^verbatim>\<open>loop\<close>, in each of the
  three sketches, the level flag is the level last written to the PAS pin.
\<close>

theorem level_flag_matches_pin:
  "((writes (updatePASSignal t s) = writes s
       \<and> outputHigh (pas (updatePASSignal t s)) = outputHigh (pas s))
     \<or> writes (updatePASSignal t s)
         = (PAS_PIN, outputHigh (pas (updatePASSignal t s))) # writes s)
   \<and> (float_rounding rnd \<longrightarrow>
        (\<exists>s'. run (loop_v3 rnd) passes setup_v3 = Inr s'
           \<and> pinLevel PAS_PIN s' = Some (outputHigh (pas s')))
      \<and> (\<exists>b'. run (loop_lut rnd) passes setup_basic = Inr b'
           \<and> pinLevel PAS_PIN b' = Some (pasState b'))
      \<and> (\<exists>b'. run (loop_fixed rnd) passes setup_basic = Inr b'
           \<and> pinLevel PAS_PIN b' = Some (pasState b')))"
proof -
  have lut: "\<exists>b'. run (loop_lut rnd) passes setup_basic = Inr b'
           \<and> pinLevel PAS_PIN b' = Some (pasState b')" if fr: "float_rounding rnd"
    using loop_lut_level [OF fr] setup_basic_level
    by (rule run_invariant [where P = "\<lambda>s. pinLevel PAS_PIN s = Some (pasState s)"])
  have fixed: "\<exists>b'. run (loop_fixed rnd) passes setup_basic = Inr b'
           \<and> pinLevel PAS_PIN b' = Some (pasState b')" if fr: "float_rounding rnd"
    using loop_fixed_level [OF fr] setup_basic_level
    by (rule run_invariant [where P = "\<lambda>s. pinLevel PAS_PIN s = Some (pasState s)"])
  show ?thesis
    using updatePASSignal_writes [of t s] run_v3_level [of rnd passes] lut fixed by blast
qed

lemmas v3_defs = loop_v3_def processThrottleInput_def interpolate_def rd_def throttlePoints_def
  frequencyPoints_def tableSize_def updatePASTimings_def updateBuzzTimings_def
  updatePASSignal_def updateBuzzSignal_def updateSerialOutput_def digitalWrite_def
  DEBUG_MODE_def DUTY_CYCLE_def AUDIO_MULTIPLIER_def SERIAL_INTERVAL_def Let_def

lemma loop_v3_examples:
  "loop_v3 exact 1000000 820 setup_v3 = Inr active_v3"
  "loop_v3 exact 5000000 100 active_v3 = Inr idle_v3"
  "loop_v3 exact 5000010 820 idle_v3 = Inr resumed_v3"
  by (simp_all add: v3_defs setup_v3_def active_v3_def idle_v3_def resumed_v3_def)

lemma loop_basic_examples:
  "loop_lut exact 1000000 820 setup_basic = Inr active_basic"
  "loop_fixed exact 1000000 820 setup_basic = Inr active_basic"
  by (simp_all add: loop_lut_def loop_fixed_def interpolate_def rd_def throttlePoints_def
      frequencyPoints_def tableSize_def pulse_def totalPeriod_def highTime_def to_ulong_def
      trunc_def exact_def stateMachine_def digitalWrite_def frequency_fixed_def map_long_def
      constrain_def THROTTLE_MIN_def THROTTLE_MAX_def MIN_FREQUENCY_def MAX_FREQUENCY_def
      DUTY_CYCLE_def signed_divide_int_def setup_basic_def active_basic_def Let_def)

theorem level_flag_matches_pin_witness:
  "float_rounding exact
   \<and> run (loop_v3 exact) [(1000000, 820), (5000000, 100)] setup_v3 = Inr idle_v3
   \<and> pinLevel PAS_PIN idle_v3 = Some (outputHigh (pas idle_v3))
   \<and> run (loop_lut exact) [(1000000, 820)] setup_basic = Inr active_basic
   \<and> run (loop_fixed exact) [(1000000, 820)] setup_basic = Inr active_basic
   \<and> pinLevel PAS_PIN active_basic = Some (pasState active_basic)"
  using level_flag_matches_pin [of 0 setup_v3 exact "[(1000000, 820), (5000000, 100)]"]
    level_flag_matches_pin [of 0 setup_v3 exact "[(1000000, 820)]"] float_rounding_exact
  by (simp add: loop_v3_examples loop_basic_examples)

subsection \<open>The dead zone and the return from it\<close>







end
